theory Spec2Isabelle
  imports Complex_Main "HOL-Library.Multiset"
begin

section \<open>Numbers, dates and batches\<close>

text \<open>
  A finite JavaScript number is modelled by the real number it denotes; the three
  special results the code handles explicitly (a finite number,
  \<open>Number.POSITIVE_INFINITY\<close>, \<open>NaN\<close>) are the constructors of \<open>jsnum\<close>.  The
  subtractions on quantities round as floating point does (see the section on
  \<open>js_sub\<close>); the arithmetic of the freshness, of distances and of scores is exact,
  so that what is stated of their values holds up to the rounding of the operations
  of the code.  A \<open>Date\<close> is its \<open>getTime()\<close> value, an integer number of
  milliseconds; every date field of a document is a valid date or absent
  (\<open>undefined\<close>, modelled as \<open>None\<close>).
\<close>

type_synonym ms = int

datatype jsnum = Fin real | PosInf | NaN

datatype status = Stored | In_transit | Delivered | Spoiled

datatype history_note = Split_from string | Reduced_by real string

record history_entry =
  h_time :: ms
  h_action :: string
  h_from :: string
  h_to :: string
  h_note :: history_note

record batch =
  bid :: string
  parentBatchId :: "string option"
  foodType :: string
  quantity_kg :: real
  original_quantity_kg :: real
  originNode :: string
  currentNode :: string
  status :: status
  shelf_life_hours :: "real option"
  manufacture_date :: "ms option"
  createdAt :: "ms option"
  expiry_iso :: "ms option"
  initial_temp_c :: "real option"
  freshnessPct :: "real option"
  history :: "history_entry list"
  metadata :: string

text \<open>\<open>Math.round\<close>: the nearest integer, a tie going towards \<open>+\<infinity>\<close>.\<close>

definition js_round :: "real \<Rightarrow> real" where
  "js_round x = of_int \<lfloor>x + 1 / 2\<rfloor>"

text \<open>The time value of \<open>new Date(x)\<close> for a number \<open>x\<close>: truncated towards zero.\<close>

definition time_clip :: "real \<Rightarrow> ms" where
  "time_clip x = (if 0 \<le> x then \<lfloor>x\<rfloor> else \<lceil>x\<rceil>)"

section \<open>Freshness (utils/freshness.js)\<close>

definition tempFactor :: "real \<Rightarrow> real" where
  "tempFactor avgTemp = 1 + max 0 ((avgTemp - 20) / 10) * 0.5"

definition elapsedHours :: "ms \<Rightarrow> ms \<Rightarrow> real" where
  "elapsedHours manufactureDate currentDate =
     real_of_int (currentDate - manufactureDate) / (1000 * 60 * 60)"

text \<open>
  \<open>calculateFreshnessPct(batch, currentDate, avgTemp)\<close>.  \<open>!batch.manufacture_date\<close>
  holds when the field is absent; \<open>!batch.shelf_life_hours || batch.shelf_life_hours <= 0\<close>
  when it is absent, zero or negative.
\<close>

definition calculateFreshnessPct :: "batch \<Rightarrow> ms \<Rightarrow> real \<Rightarrow> real" where
  "calculateFreshnessPct b currentDate avgTemp =
     (case manufacture_date b of
        None \<Rightarrow> 100
      | Some m \<Rightarrow>
          (case shelf_life_hours b of
             None \<Rightarrow> 100
           | Some life \<Rightarrow>
               if life \<le> 0 then 100
               else js_round
                      (max 0 (100 - elapsedHours m currentDate / life * 100 * tempFactor avgTemp)
                         * 100) / 100))"

definition isSpoiled :: "batch \<Rightarrow> ms \<Rightarrow> real \<Rightarrow> bool" where
  "isSpoiled b currentDate avgTemp \<longleftrightarrow> calculateFreshnessPct b currentDate avgTemp \<le> 0"

text \<open>
  \<open>remainingShelfLifeHours(batch, currentDate, avgTemp)\<close>.  With a field absent the
  freshness is 100, and \<open>new Date(undefined)\<close> or \<open>undefined / tempFactor\<close> makes the
  result \<open>Math.max(0, NaN)\<close>, which is \<open>NaN\<close>.
\<close>

definition remainingShelfLifeHours :: "batch \<Rightarrow> ms \<Rightarrow> real \<Rightarrow> jsnum" where
  "remainingShelfLifeHours b currentDate avgTemp =
     (if calculateFreshnessPct b currentDate avgTemp \<le> 0 then Fin 0
      else case (manufacture_date b, shelf_life_hours b) of
             (Some m, Some life) \<Rightarrow>
               Fin (max 0 (life / tempFactor avgTemp - elapsedHours m currentDate))
           | _ \<Rightarrow> NaN)"

text \<open>
  \<open>safeRemainingShelfLifeHours(batch, currentDate)\<close> of services/simulationService.js:
  it calls \<open>remainingShelfLifeHours\<close> with the default temperature 25.
\<close>

definition safeRemainingShelfLifeHours :: "batch \<Rightarrow> ms \<Rightarrow> jsnum" where
  "safeRemainingShelfLifeHours b currentDate =
     (let hasLife = (case shelf_life_hours b of None \<Rightarrow> False | Some life \<Rightarrow> 0 < life);
          hasManufacture = (manufacture_date b \<noteq> None)
      in if \<not> hasLife \<or> \<not> hasManufacture then PosInf
         else case remainingShelfLifeHours b currentDate 25 of
                Fin hours \<Rightarrow> Fin hours
              | _ \<Rightarrow> PosInf)"

text \<open>The formula of the specification: the decay clamped to the interval from 0 to 100.\<close>

definition clamp :: "real \<Rightarrow> real \<Rightarrow> real \<Rightarrow> real" where
  "clamp lo hi x = max lo (min hi x)"

definition spec_freshnessPct :: "real \<Rightarrow> real \<Rightarrow> real \<Rightarrow> real" where
  "spec_freshnessPct elapsed life avgTemp =
     js_round (clamp 0 100 (100 - elapsed / life * 100 * tempFactor avgTemp) * 100) / 100"

definition mk_batch :: "string \<Rightarrow> string \<Rightarrow> real \<Rightarrow> string \<Rightarrow> real option \<Rightarrow> ms option \<Rightarrow> batch" where
  "mk_batch i ft q node life m =
     \<lparr> bid = i, parentBatchId = None, foodType = ft, quantity_kg = q,
       original_quantity_kg = q, originNode = node, currentNode = node, status = Stored,
       shelf_life_hours = life, manufacture_date = m, createdAt = None, expiry_iso = None,
       initial_temp_c = None, freshnessPct = None, history = [], metadata = [] \<rparr>"

section \<open>Sorting\<close>

text \<open>
  \<open>Array.prototype.sort(compareFn)\<close> is stable: an element is placed before another
  exactly when the comparator forces it.  \<open>js_sort\<close> is the stable insertion sort; the
  comparator returns a number of which only the sign matters (\<open>NaN\<close> counts as 0).  It
  yields the order of the language when the comparator is consistent on the elements at
  hand (it decides a total preorder of them).  For a comparator that is not, the language
  leaves the order to the engine; the statements below that depend on an order concern
  sorts with a consistent comparator or of at most two elements.
\<close>

fun js_insert :: "('a \<Rightarrow> 'a \<Rightarrow> real) \<Rightarrow> 'a \<Rightarrow> 'a list \<Rightarrow> 'a list" where
  "js_insert cmp x [] = [x]"
| "js_insert cmp x (y # ys) = (if cmp x y \<le> 0 then x # y # ys else y # js_insert cmp x ys)"

fun js_sort :: "('a \<Rightarrow> 'a \<Rightarrow> real) \<Rightarrow> 'a list \<Rightarrow> 'a list" where
  "js_sort cmp [] = []"
| "js_sort cmp (x # xs) = js_insert cmp x (js_sort cmp xs)"

text \<open>The sign of \<open>a - b\<close> for two results of \<open>safeRemainingShelfLifeHours\<close>.\<close>

fun jsnum_diff :: "jsnum \<Rightarrow> jsnum \<Rightarrow> real" where
  "jsnum_diff (Fin a) (Fin b) = a - b"
| "jsnum_diff (Fin a) PosInf = - 1"
| "jsnum_diff PosInf (Fin b) = 1"
| "jsnum_diff _ _ = 0"

text \<open>\<open>x > 0\<close> for a JavaScript number.\<close>

fun jsnum_pos :: "jsnum \<Rightarrow> bool" where
  "jsnum_pos (Fin a) = (0 < a)"
| "jsnum_pos PosInf = True"
| "jsnum_pos NaN = False"

section \<open>Subtraction of quantities in floating point\<close>

text \<open>
  The quantities of batches and of requests are JavaScript numbers, that is IEEE 754
  doubles.  \<open>round_double\<close> rounds a real number to the nearest double, a tie to the even
  significand, with 53 bits and without the limits of the exponent: the differences of
  quantities formed below do not overflow, and a subnormal difference of two doubles
  needs no rounding.  A real number stands for a double when rounding leaves it as it
  is (\<open>is_double\<close>), as every whole number up to \<open>2 ^ 53\<close> does (\<open>whole\<close>).  \<open>js_sub\<close> is the
  subtraction \<open>a - b\<close> of the language on quantities.  \<open>expo x\<close> is the exponent of \<open>x\<close>,
  the integer \<open>e\<close> with \<open>2 ^ e \<le> x < 2 ^ (e + 1)\<close>.  The remaining arithmetic of the model
  (freshness, distances, scores, utilizations, the totals reported of a transfer) is
  exact.
\<close>

function expo :: "real \<Rightarrow> int" where
  "expo x =
     (if x \<le> 0 then 0
      else if 2 \<le> x then expo (x / 2) + 1
      else if x < 1 then expo (2 * x) - 1
      else 0)"
  by pat_completeness auto

termination
proof (relation "measure (\<lambda>x. nat \<bar>\<lfloor>log 2 x\<rfloor>\<bar>)")
  show "wf (measure (\<lambda>x. nat \<bar>\<lfloor>log 2 x\<rfloor>\<bar>))" by simp
next
  fix x :: real
  assume "\<not> x \<le> 0" and x: "2 \<le> x"
  then have "log 2 (x / 2) = log 2 x - 1"
    by (simp add: log_divide)
  moreover have "1 \<le> log 2 x"
    using x by (simp add: le_log_iff)
  ultimately have 1: "\<lfloor>log 2 (x / 2)\<rfloor> = \<lfloor>log 2 x\<rfloor> - 1" and 2: "1 \<le> \<lfloor>log 2 x\<rfloor>"
    by (simp_all add: le_floor_iff)
  from 2 have "nat \<bar>\<lfloor>log 2 x\<rfloor> - 1\<bar> < nat \<bar>\<lfloor>log 2 x\<rfloor>\<bar>"
    by linarith
  then show "(x / 2, x) \<in> measure (\<lambda>x. nat \<bar>\<lfloor>log 2 x\<rfloor>\<bar>)"
    by (simp only: in_measure 1)
next
  fix x :: real
  assume pos: "\<not> x \<le> 0" and "\<not> 2 \<le> x" and x: "x < 1"
  then have "log 2 (2 * x) = 1 + log 2 x"
    by (simp add: log_mult)
  moreover have "log 2 x < 0"
    using pos x by simp
  ultimately have 1: "\<lfloor>log 2 (2 * x)\<rfloor> = \<lfloor>log 2 x\<rfloor> + 1" and 2: "\<lfloor>log 2 x\<rfloor> < 0"
    by (simp_all add: floor_less_iff)
  from 2 have "nat \<bar>\<lfloor>log 2 x\<rfloor> + 1\<bar> < nat \<bar>\<lfloor>log 2 x\<rfloor>\<bar>"
    by linarith
  then show "(2 * x, x) \<in> measure (\<lambda>x. nat \<bar>\<lfloor>log 2 x\<rfloor>\<bar>)"
    by (simp only: in_measure 1)
qed

declare expo.simps [simp del]

definition pow2 :: "int \<Rightarrow> real" where
  "pow2 e = (if 0 \<le> e then 2 ^ nat e else 1 / 2 ^ nat (- e))"

definition round_even :: "real \<Rightarrow> int" where
  "round_even y =
     (let f = \<lfloor>y\<rfloor>; d = y - of_int f
      in if d < 1 / 2 then f else if 1 / 2 < d then f + 1 else if even f then f else f + 1)"

definition round_double :: "real \<Rightarrow> real" where
  "round_double x =
     (if x = 0 then 0
      else let e = expo \<bar>x\<bar> - 52
           in sgn x * of_int (round_even (\<bar>x\<bar> / pow2 e)) * pow2 e)"

definition js_sub :: "real \<Rightarrow> real \<Rightarrow> real" where
  "js_sub a b = round_double (a - b)"

definition is_double :: "real \<Rightarrow> bool" where
  "is_double x \<longleftrightarrow> round_double x = x"

definition whole :: "real \<Rightarrow> bool" where
  "whole x \<longleftrightarrow> of_int \<lfloor>x\<rfloor> = x \<and> \<bar>x\<bar> \<le> 2 ^ 53"

section \<open>Applying transfer suggestions (services/simulationService.js)\<close>

text \<open>
  A suggestion of the external planner.  \<open>sg_source\<close> and \<open>sg_target\<close> are
  \<open>suggestion?.source?.mongoId?.toString?.() ?? null\<close>; the suggested quantity is whatever
  \<open>Number(...)\<close> makes of the field.
\<close>

record suggestion =
  sg_type :: "string option"
  sg_source :: "string option"
  sg_target :: "string option"
  sg_quantity :: jsnum
  sg_distance_km :: "real option"

record applied_transfer =
  at_type :: string
  sourceWarehouseId :: string
  targetWarehouseId :: string
  suggested_quantity_kg :: real
  applied_quantity_kg :: real
  at_distance_km :: "real option"

fun coercePositiveNumber :: "jsnum \<Rightarrow> real option" where
  "coercePositiveNumber (Fin n) = (if 0 < n then Some n else None)"
| "coercePositiveNumber _ = None"

text \<open>The decimal digits of a counter, as a template literal prints it.\<close>

fun string_of_nat :: "nat \<Rightarrow> string" where
  "string_of_nat n =
     (let d = ''0123456789'' ! (n mod 10)
      in if n div 10 = 0 then [d] else string_of_nat (n div 10) @ [d])"

declare string_of_nat.simps [simp del]

text \<open>
  The objects of the array \<open>working\<close> are referred to by their position: the function
  only appends to \<open>working\<close>, so a position names the same object throughout.
\<close>

definition transfer_cmp :: "ms \<Rightarrow> nat \<times> batch \<Rightarrow> nat \<times> batch \<Rightarrow> real" where
  "transfer_cmp when a b =
     (let aLife = safeRemainingShelfLifeHours (snd a) when;
          bLife = safeRemainingShelfLifeHours (snd b) when
      in if aLife \<noteq> bLife then jsnum_diff aLife bLife
         else quantity_kg (snd b) - quantity_kg (snd a))"

definition transfer_candidates :: "ms \<Rightarrow> batch list \<Rightarrow> string \<Rightarrow> (nat \<times> batch) list" where
  "transfer_candidates when working sourceId =
     js_sort (transfer_cmp when)
       (filter (\<lambda>(i, b). status b = Stored \<and> currentNode b \<noteq> [] \<and> currentNode b = sourceId
                          \<and> 0 < quantity_kg b)
          (zip [0 ..< length working] working))"

fun pick_loop :: "(nat \<times> batch) list \<Rightarrow> real \<Rightarrow> (nat \<times> real) list" where
  "pick_loop [] remaining = []"
| "pick_loop ((i, b) # cs) remaining =
     (if remaining \<le> 0 then []
      else let available = quantity_kg b
           in if available \<le> 0 then pick_loop cs remaining
              else let takeQty = min available remaining
                   in (i, takeQty) # pick_loop cs (js_sub remaining takeQty))"

definition takeFromSource :: "ms \<Rightarrow> batch list \<Rightarrow> string \<Rightarrow> real \<Rightarrow> (nat \<times> real) list" where
  "takeFromSource when working sourceId qtyNeeded =
     (if qtyNeeded \<le> 0 then []
      else pick_loop (transfer_candidates when working sourceId) qtyNeeded)"

text \<open>
  The split of a batch during a transfer: the parent keeps \<open>available - takeQty\<close>, a
  subtraction in floating point, the child is a copy of the parent with a derived
  identifier, the target as its node and \<open>takeQty\<close> as its quantity.  The result is
  (parent, child).  In the guard of the split \<open>1e-9\<close> is the double nearest to that
  decimal.
\<close>

definition split_for_transfer :: "batch \<Rightarrow> real \<Rightarrow> string \<Rightarrow> nat \<Rightarrow> batch \<times> batch" where
  "split_for_transfer b takeQty targetId splitSeq =
     (let available = quantity_kg b;
          parent = b\<lparr>quantity_kg := js_sub available takeQty\<rparr>
      in (parent,
          parent\<lparr>bid := bid b @ ''-xfer-'' @ string_of_nat splitSeq,
                 currentNode := targetId, quantity_kg := takeQty\<rparr>))"

fun apply_picked :: "string \<Rightarrow> (nat \<times> real) list \<Rightarrow> batch list \<times> nat \<Rightarrow> batch list \<times> nat" where
  "apply_picked targetId [] (working, splitSeq) = (working, splitSeq)"
| "apply_picked targetId ((i, takeQty) # ps) (working, splitSeq) =
     (let b = working ! i; available = quantity_kg b
      in if takeQty \<le> 0 \<or> available \<le> 0 then apply_picked targetId ps (working, splitSeq)
         else if js_sub available (round_double (1 / 10 ^ 9)) \<le> takeQty
         then apply_picked targetId ps (working[i := b\<lparr>currentNode := targetId\<rparr>], splitSeq)
         else let (parent, child) = split_for_transfer b takeQty targetId (splitSeq + 1)
              in apply_picked targetId ps (working[i := parent] @ [child], splitSeq + 1))"

record transfer_state =
  ts_working :: "batch list"
  ts_splitSeq :: nat
  ts_applied :: "applied_transfer list"

definition apply_suggestion :: "ms \<Rightarrow> suggestion \<Rightarrow> transfer_state \<Rightarrow> transfer_state" where
  "apply_suggestion when sg st =
     (case (sg_source sg, sg_target sg, coercePositiveNumber (sg_quantity sg)) of
        (Some sourceId, Some targetId, Some suggestedQty) \<Rightarrow>
          if sourceId = [] \<or> targetId = [] then st
          else if sourceId = targetId then st
          else let picked = takeFromSource when (ts_working st) sourceId suggestedQty;
                   totalTaken = sum_list (map snd picked)
               in if totalTaken \<le> 0 then st
                  else let (working, splitSeq) =
                             apply_picked targetId picked (ts_working st, ts_splitSeq st)
                       in \<lparr> ts_working = working, ts_splitSeq = splitSeq,
                            ts_applied = ts_applied st @
                              [\<lparr> at_type = (case sg_type sg of None \<Rightarrow> ''warehouse_to_warehouse''
                                             | Some t \<Rightarrow> if t = [] then ''warehouse_to_warehouse'' else t),
                                 sourceWarehouseId = sourceId, targetWarehouseId = targetId,
                                 suggested_quantity_kg = suggestedQty,
                                 applied_quantity_kg = js_round (totalTaken * 100) / 100,
                                 at_distance_km = sg_distance_km sg \<rparr>] \<rparr>
      | _ \<Rightarrow> st)"

text \<open>
  \<open>applyWarehouseTransfersToBatches({batches, transfers, currentDate})\<close>; \<open>transfers\<close> is
  \<open>None\<close> when the planner's answer holds no array.  The caller always passes a valid
  \<open>currentDate\<close>.
\<close>

definition applyWarehouseTransfersToBatches ::
  "batch list \<Rightarrow> suggestion list option \<Rightarrow> ms \<Rightarrow> batch list \<times> applied_transfer list" where
  "applyWarehouseTransfersToBatches batches transfers currentDate =
     (case transfers of
        None \<Rightarrow> (batches, [])
      | Some ts \<Rightarrow>
          if ts = [] then (batches, [])
          else let st = fold (apply_suggestion currentDate) ts
                          \<lparr> ts_working = batches, ts_splitSeq = 0, ts_applied = [] \<rparr>
               in (ts_working st, ts_applied st))"

section \<open>Batch allocation for a shipment (controllers/shipment.controller.js)\<close>

datatype api_error = ApiError nat

record allocated_batch =
  ab_batchId :: string
  ab_quantity :: real
  isSplit :: bool
  ab_parentBatchId :: "string option"

text \<open>
  The split of \<open>createShipment\<close>: \<open>Batch.create\<close> makes the child (its identifier
  \<open>childId\<close> is chosen by the database, a field not passed to \<open>Batch.create\<close> is
  absent), then the parent is reduced and saved.  The result is (parent, child).
\<close>

definition split_for_shipment :: "ms \<Rightarrow> string \<Rightarrow> batch \<Rightarrow> real \<Rightarrow> batch \<times> batch" where
  "split_for_shipment now childId b remainingQty =
     (let child =
            \<lparr> bid = childId, parentBatchId = Some (bid b), foodType = foodType b,
              quantity_kg = remainingQty, original_quantity_kg = original_quantity_kg b,
              originNode = originNode b, currentNode = currentNode b, status = Stored,
              shelf_life_hours = shelf_life_hours b, manufacture_date = manufacture_date b,
              createdAt = None, expiry_iso = expiry_iso b,
              initial_temp_c = initial_temp_c b, freshnessPct = freshnessPct b,
              history = history b @
                [\<lparr> h_time = now, h_action = ''split'', h_from = currentNode b,
                    h_to = currentNode b, h_note = Split_from (bid b) \<rparr>],
              metadata = metadata b \<rparr>;
          parent =
            b\<lparr> quantity_kg := js_sub (quantity_kg b) remainingQty,
               history := history b @
                 [\<lparr> h_time = now, h_action = ''split'', h_from = currentNode b,
                     h_to = currentNode b, h_note = Reduced_by remainingQty childId \<rparr>] \<rparr>
      in (parent, child))"

text \<open>
  The loop over \<open>availableBatches\<close> for one item.  It returns the allocation entries, the
  batches as saved (in the order of the query), the child created by a split, and the
  quantity still missing.
\<close>

fun shipment_loop ::
  "ms \<Rightarrow> string \<Rightarrow> batch list \<Rightarrow> real \<Rightarrow> allocated_batch list \<times> batch list \<times> batch list \<times> real" where
  "shipment_loop now childId [] remainingQty = ([], [], [], remainingQty)"
| "shipment_loop now childId (b # bs) remainingQty =
     (if remainingQty \<le> 0 then ([], b # bs, [], remainingQty)
      else if remainingQty \<le> quantity_kg b
      then if quantity_kg b = remainingQty
           then let (as, bs', cs, r) = shipment_loop now childId bs 0
                in (\<lparr> ab_batchId = bid b, ab_quantity = remainingQty, isSplit = False,
                       ab_parentBatchId = None \<rparr> # as, b # bs', cs, r)
           else let (parent, child) = split_for_shipment now childId b remainingQty;
                    (as, bs', cs, r) = shipment_loop now childId bs 0
                in (\<lparr> ab_batchId = bid child, ab_quantity = remainingQty, isSplit = True,
                       ab_parentBatchId = Some (bid b) \<rparr> # as, parent # bs', child # cs, r)
      else let (as, bs', cs, r) =
                 shipment_loop now childId bs (js_sub remainingQty (quantity_kg b))
           in (\<lparr> ab_batchId = bid b, ab_quantity = quantity_kg b, isSplit = False,
                  ab_parentBatchId = None \<rparr> # as, b # bs', cs, r))"

text \<open>
  One item of \<open>createShipment\<close>: the item is validated, the stored batches of the food
  type at the source node with a positive quantity are read oldest first, and an
  insufficient inventory is an \<open>ApiError\<close> 400.
\<close>

definition manufacture_cmp :: "batch \<Rightarrow> batch \<Rightarrow> real" where
  "manufacture_cmp a b =
     (case (manufacture_date a, manufacture_date b) of
        (None, None) \<Rightarrow> 0
      | (None, Some _) \<Rightarrow> - 1
      | (Some _, None) \<Rightarrow> 1
      | (Some x, Some y) \<Rightarrow> real_of_int (x - y))"

definition allocate_shipment_item ::
  "ms \<Rightarrow> string \<Rightarrow> batch list \<Rightarrow> string \<Rightarrow> string \<Rightarrow> real
   \<Rightarrow> api_error + allocated_batch list \<times> batch list \<times> batch list" where
  "allocate_shipment_item now childId db fromNodeId ft quantity =
     (if ft = [] \<or> quantity \<le> 0 then Inl (ApiError 400)
      else let availableBatches =
                 js_sort manufacture_cmp
                   (filter (\<lambda>b. currentNode b = fromNodeId \<and> foodType b = ft
                                 \<and> status b = Stored \<and> 0 < quantity_kg b) db);
               (as, bs', cs, r) = shipment_loop now childId availableBatches quantity
           in if 0 < r then Inl (ApiError 400) else Inr (as, bs', cs))"

text \<open>A suggestion to move 30 kg from warehouse A to warehouse B.\<close>

definition example_suggestion :: suggestion where
  "example_suggestion =
     \<lparr> sg_type = None, sg_source = Some ''A'', sg_target = Some ''B'', sg_quantity = Fin 30,
       sg_distance_km = None \<rparr>"

section \<open>Nodes, requests and allocations\<close>

text \<open>
  A node document.  \<open>nid\<close> is \<open>_id.toString()\<close>, \<open>coordinates\<close> is
  \<open>location.coordinates\<close> (longitude, latitude), \<open>capacity_kg\<close> is what \<open>Number(...)\<close>
  makes of the field.
\<close>

record node =
  nid :: string
  nname :: string
  coordinates :: "real \<times> real"
  capacity_kg :: jsnum
  nstate :: "string option"
  ndistrict :: "string option"
  nregionId :: "string option"

record ngo_org =
  org_id :: string
  org_name :: string

record item =
  item_foodType :: string
  required_kg :: real

record request =
  requestID :: string
  requesterNode :: string
  items :: "item list"
  req_dispatchTime :: "ms option"
  createdOn :: "ms option"

record used_batch =
  batchId :: string
  quantity :: real
  freshness :: real

record allocation =
  requestId :: string
  alloc_foodType :: string
  alloc_required_kg :: real
  allocated_kg :: real
  alloc_warehouse :: string
  warehouseName :: string
  distance_km :: real
  alloc_batches :: "used_batch list"
  strategy :: string
  alloc_dispatchTime :: ms

text \<open>
  \<open>haversineDistanceKm\<close> of utils/geoHelpers.js, on the coordinates of two nodes.
  \<open>Math.atan2\<close> is needed for two non-negative arguments only.
\<close>

definition js_atan2 :: "real \<Rightarrow> real \<Rightarrow> real" where
  "js_atan2 y x =
     (if 0 < x then arctan (y / x)
      else if x < 0 then (if 0 \<le> y then arctan (y / x) + pi else arctan (y / x) - pi)
      else if 0 < y then pi / 2 else if y < 0 then - pi / 2 else 0)"

definition haversineDistanceKm :: "real \<times> real \<Rightarrow> real \<times> real \<Rightarrow> real" where
  "haversineDistanceKm a b =
     (let lat_a = snd a; lon_a = fst a; lat_b = snd b; lon_b = fst b;
          dLat = (lat_b - lat_a) * pi / 180;
          dLon = (lon_b - lon_a) * pi / 180;
          lat1 = lat_a * pi / 180;
          lat2 = lat_b * pi / 180;
          x = sin (dLat / 2) * sin (dLat / 2)
              + sin (dLon / 2) * sin (dLon / 2) * cos lat1 * cos lat2;
          c = 2 * js_atan2 (sqrt x) (sqrt (1 - x))
      in 6371 * c)"

definition node_distance :: "node \<Rightarrow> node \<Rightarrow> real" where
  "node_distance ngoNode wh = haversineDistanceKm (coordinates ngoNode) (coordinates wh)"

text \<open>
  The options of both allocators.  A field is \<open>None\<close> when the caller does not set it.
\<close>

record options =
  dispatchTimeFloor :: "ms option"
  dispatchTimeCeil :: "ms option"
  referenceDate :: "ms option"
  simulationOnly :: bool
  enableTransferPlanner :: bool
  transferPlannerMaxPairs :: "real option"
  transferPlannerMinTransferKg :: "real option"
  transferPlannerOverstockRatio :: "real option"
  transferPlannerUnderstockRatio :: "real option"
  transferPlannerTargetRatio :: "real option"
  transferPlannerCronHours :: "real option"

definition estimateTravelHours :: "real \<Rightarrow> real" where
  "estimateTravelHours distanceKm =
     (let avgSpeedKmh = 40;
          baseHours = distanceKm / avgSpeedKmh;
          breaks = of_int \<lfloor>baseHours / 4\<rfloor> * 0.5
      in baseHours + breaks)"

text \<open>The dispatch time of a request, clamped to the window of the options.\<close>

definition clamp_dispatch :: "options \<Rightarrow> ms \<Rightarrow> ms" where
  "clamp_dispatch opts d =
     (let d1 = (case dispatchTimeFloor opts of
                  Some f \<Rightarrow> if d < f then f else d | None \<Rightarrow> d)
      in case dispatchTimeCeil opts of
           Some c \<Rightarrow> if c < d1 then c else d1 | None \<Rightarrow> d1)"

definition request_time :: "ms \<Rightarrow> request \<Rightarrow> ms" where
  "request_time now r =
     (case req_dispatchTime r of
        Some d \<Rightarrow> d
      | None \<Rightarrow> (case createdOn r of Some c \<Rightarrow> c | None \<Rightarrow> now))"

text \<open>
  A batch is available by the dispatch time when its \<open>manufacture_date\<close>, or else its
  \<open>createdAt\<close>, is not later; a batch with neither is available.
\<close>

definition available_by :: "batch \<Rightarrow> ms \<Rightarrow> bool" where
  "available_by b dispatchTime =
     (case manufacture_date b of
        Some m \<Rightarrow> m \<le> dispatchTime
      | None \<Rightarrow> (case createdAt b of Some c \<Rightarrow> c \<le> dispatchTime | None \<Rightarrow> True))"

section \<open>Consuming batches\<close>

datatype js_error = TypeError

fun findIndex :: "('a \<Rightarrow> bool) \<Rightarrow> 'a list \<Rightarrow> nat option" where
  "findIndex P [] = None"
| "findIndex P (x # xs) = (if P x then Some 0 else map_option Suc (findIndex P xs))"

definition splice1 :: "nat \<Rightarrow> 'a list \<Rightarrow> 'a list" where
  "splice1 idx xs = take idx xs @ drop (Suc idx) xs"

text \<open>
  The loop that both allocators run over the ranked batches of the chosen warehouse.
  The ranked list holds the batch objects as they are when the loop starts; the loop
  changes the quantity of an object only in the iteration after which it stops, so this
  is what every iteration reads.  The array \<open>unusedBatches\<close> is searched by identifier:
  when nothing is found, \<open>findIndex\<close> is \<open>-1\<close>, \<open>splice(-1, 1)\<close> removes the last element
  and \<open>unusedBatches[-1].quantity_kg\<close> raises a \<open>TypeError\<close>.
\<close>

fun consume ::
  "(batch \<Rightarrow> real) \<Rightarrow> batch list \<Rightarrow> real \<Rightarrow> used_batch list \<Rightarrow> batch list
   \<Rightarrow> js_error + real \<times> used_batch list \<times> batch list" where
  "consume fr [] remaining usedBatches unusedBatches = Inr (remaining, usedBatches, unusedBatches)"
| "consume fr (b # bs) remaining usedBatches unusedBatches =
     (if remaining \<le> 0 then Inr (remaining, usedBatches, unusedBatches)
      else let allocatedQty = min (quantity_kg b) remaining;
               used' = usedBatches @
                         [\<lparr> batchId = bid b, quantity = allocatedQty, freshness = fr b \<rparr>];
               remaining' = js_sub remaining allocatedQty
           in case findIndex (\<lambda>x. bid x = bid b) unusedBatches of
                Some idx \<Rightarrow>
                  if quantity_kg b \<le> allocatedQty
                  then consume fr bs remaining' used' (splice1 idx unusedBatches)
                  else consume fr bs remaining' used'
                         (unusedBatches[idx := (unusedBatches ! idx)
                            \<lparr>quantity_kg :=
                               js_sub (quantity_kg (unusedBatches ! idx)) allocatedQty\<rparr>])
              | None \<Rightarrow>
                  if quantity_kg b \<le> allocatedQty
                  then consume fr bs remaining' used' (butlast unusedBatches)
                  else Inl TypeError)"

section \<open>The baseline allocator (allocateRegular)\<close>

definition eligible_regular :: "batch \<Rightarrow> string \<Rightarrow> string \<Rightarrow> ms \<Rightarrow> bool" where
  "eligible_regular b ft whId dispatchTime \<longleftrightarrow>
     foodType b = ft \<and> status b = Stored \<and> currentNode b = whId
     \<and> available_by b dispatchTime
     \<and> jsnum_pos (safeRemainingShelfLifeHours b dispatchTime)
     \<and> 0 < calculateFreshnessPct b dispatchTime 25"

definition batch_time :: "batch \<Rightarrow> ms" where
  "batch_time b =
     (case manufacture_date b of
        Some m \<Rightarrow> m
      | None \<Rightarrow> (case createdAt b of Some c \<Rightarrow> c | None \<Rightarrow> 0))"

definition regular_cmp :: "ms \<Rightarrow> batch \<Rightarrow> batch \<Rightarrow> real" where
  "regular_cmp dispatchTime a b =
     (case (safeRemainingShelfLifeHours a dispatchTime, safeRemainingShelfLifeHours b dispatchTime) of
        (Fin ra, Fin rb) \<Rightarrow>
          if ra \<noteq> rb then ra - rb else real_of_int (batch_time a - batch_time b)
      | _ \<Rightarrow> real_of_int (batch_time a - batch_time b))"

definition warehousesByDistance ::
  "(node \<Rightarrow> node \<Rightarrow> real) \<Rightarrow> node \<Rightarrow> node list \<Rightarrow> (node \<times> real) list" where
  "warehousesByDistance distFn ngoNode warehouses =
     js_sort (\<lambda>a b. snd a - snd b) (map (\<lambda>w. (w, distFn ngoNode w)) warehouses)"

definition regular_source ::
  "(node \<times> real) list \<Rightarrow> batch list \<Rightarrow> string \<Rightarrow> ms \<Rightarrow> (node \<times> real) option" where
  "regular_source byDistance unusedBatches ft dispatchTime =
     find (\<lambda>(w, d). list_ex (\<lambda>b. eligible_regular b ft (nid w) dispatchTime) unusedBatches)
       byDistance"

text \<open>
  The eligible batches of a warehouse as sorted with \<open>regular_cmp\<close>.  That comparator
  is consistent on batches that all have an expiry and on batches that all have none; on
  a mix of both it can be cyclic, and then the order of three or more batches is that
  of the engine, which need not be the one of \<open>js_sort\<close>.
\<close>

definition regular_available :: "batch list \<Rightarrow> string \<Rightarrow> string \<Rightarrow> ms \<Rightarrow> batch list" where
  "regular_available unusedBatches ft whId dispatchTime =
     js_sort (regular_cmp dispatchTime)
       (filter (\<lambda>b. eligible_regular b ft whId dispatchTime) unusedBatches)"

definition stored_freshness :: "batch \<Rightarrow> real" where
  "stored_freshness b =
     (case freshnessPct b of None \<Rightarrow> 100 | Some f \<Rightarrow> if f = 0 then 100 else f)"

text \<open>
  One line item of a request: the allocation record, if one is pushed, and the array
  \<open>unusedBatches\<close> afterwards.
\<close>

definition regular_item ::
  "(node \<times> real) list \<Rightarrow> string \<Rightarrow> ms \<Rightarrow> item \<Rightarrow> batch list
   \<Rightarrow> js_error + allocation option \<times> batch list" where
  "regular_item byDistance reqId dispatchTime it unusedBatches =
     (case regular_source byDistance unusedBatches (item_foodType it) dispatchTime of
        None \<Rightarrow> Inr (None, unusedBatches)
      | Some (sourceWarehouse, sourceDistanceKm) \<Rightarrow>
          let availableBatches =
                regular_available unusedBatches (item_foodType it) (nid sourceWarehouse)
                  dispatchTime
          in case consume stored_freshness availableBatches (required_kg it) [] unusedBatches of
               Inl e \<Rightarrow> Inl e
             | Inr (remaining, usedBatches, unused') \<Rightarrow>
                 let allocatedKg = js_sub (required_kg it) remaining
                 in Inr (if 0 < allocatedKg
                         then Some \<lparr> requestId = reqId, alloc_foodType = item_foodType it,
                                     alloc_required_kg = required_kg it,
                                     allocated_kg = allocatedKg,
                                     alloc_warehouse = nid sourceWarehouse,
                                     warehouseName = nname sourceWarehouse,
                                     distance_km = sourceDistanceKm, alloc_batches = usedBatches,
                                     strategy = ''regular'',
                                     alloc_dispatchTime = dispatchTime \<rparr>
                         else None, unused'))"

fun regular_items ::
  "(node \<times> real) list \<Rightarrow> string \<Rightarrow> ms \<Rightarrow> item list \<Rightarrow> allocation list \<times> batch list
   \<Rightarrow> js_error + allocation list \<times> batch list" where
  "regular_items byDistance reqId dispatchTime [] st = Inr st"
| "regular_items byDistance reqId dispatchTime (it # its) (allocations, unusedBatches) =
     (case regular_item byDistance reqId dispatchTime it unusedBatches of
        Inl e \<Rightarrow> Inl e
      | Inr (a, unused') \<Rightarrow>
          regular_items byDistance reqId dispatchTime its
            (allocations @ (case a of None \<Rightarrow> [] | Some x \<Rightarrow> [x]), unused'))"

text \<open>
  The requester of a request is an NGO organisation; its node is the NGO node of the
  same name.  A request without either is skipped.
\<close>

definition find_ngo_node :: "ngo_org list \<Rightarrow> node list \<Rightarrow> request \<Rightarrow> node option" where
  "find_ngo_node ngoOrgs ngos r =
     (case find (\<lambda>org. org_id org = requesterNode r) ngoOrgs of
        None \<Rightarrow> None
      | Some ngoOrg \<Rightarrow> find (\<lambda>n. nname n = org_name ngoOrg) ngos)"

definition regular_request ::
  "(node \<Rightarrow> node \<Rightarrow> real) \<Rightarrow> ms \<Rightarrow> ngo_org list \<Rightarrow> node list \<Rightarrow> node list \<Rightarrow> options
   \<Rightarrow> request \<Rightarrow> allocation list \<times> batch list \<Rightarrow> js_error + allocation list \<times> batch list" where
  "regular_request distFn now ngoOrgs warehouses ngos opts r st =
     (let dispatchTime = clamp_dispatch opts (request_time now r)
      in case find_ngo_node ngoOrgs ngos r of
           None \<Rightarrow> Inr st
         | Some ngoNode \<Rightarrow>
             let byDistance = warehousesByDistance distFn ngoNode warehouses
             in if byDistance = [] then Inr st
                else regular_items byDistance (requestID r) dispatchTime (items r) st)"

fun regular_requests ::
  "(node \<Rightarrow> node \<Rightarrow> real) \<Rightarrow> ms \<Rightarrow> ngo_org list \<Rightarrow> node list \<Rightarrow> node list \<Rightarrow> options
   \<Rightarrow> request list \<Rightarrow> allocation list \<times> batch list \<Rightarrow> js_error + allocation list \<times> batch list" where
  "regular_requests distFn now ngoOrgs warehouses ngos opts [] st = Inr st"
| "regular_requests distFn now ngoOrgs warehouses ngos opts (r # rs) st =
     (case regular_request distFn now ngoOrgs warehouses ngos opts r st of
        Inl e \<Rightarrow> Inl e
      | Inr st' \<Rightarrow> regular_requests distFn now ngoOrgs warehouses ngos opts rs st')"

text \<open>
  \<open>allocateRegular(requests, batches, warehouses, ngos, options)\<close>.  The distance
  function, the clock (\<open>new Date()\<close>) and the NGO organisations read from the database
  are parameters; the code measures distances with \<open>haversineDistanceKm\<close>.
\<close>

definition allocateRegular_with ::
  "(node \<Rightarrow> node \<Rightarrow> real) \<Rightarrow> ms \<Rightarrow> ngo_org list \<Rightarrow> request list \<Rightarrow> batch list \<Rightarrow> node list
   \<Rightarrow> node list \<Rightarrow> options \<Rightarrow> js_error + allocation list" where
  "allocateRegular_with distFn now ngoOrgs requests batches warehouses ngos opts =
     (case regular_requests distFn now ngoOrgs warehouses ngos opts requests ([], batches) of
        Inl e \<Rightarrow> Inl e
      | Inr (allocations, unusedBatches) \<Rightarrow> Inr allocations)"

definition allocateRegular ::
  "ms \<Rightarrow> ngo_org list \<Rightarrow> request list \<Rightarrow> batch list \<Rightarrow> node list \<Rightarrow> node list \<Rightarrow> options
   \<Rightarrow> js_error + allocation list" where
  "allocateRegular = allocateRegular_with node_distance"

section \<open>The scored allocator (allocateML): configuration\<close>

text \<open>
  The environment variables that \<open>allocateML\<close> reads, each as the number that
  \<open>Number(...)\<close> makes of it, \<open>None\<close> when the variable is not set.  The model presumes
  a \<open>distanceDecayKm\<close> other than 0.
\<close>

record env =
  env_min_delivered_freshness_pct :: "real option"
  env_relaxed_min_delivered_freshness_pct :: "real option"
  env_max_distance_km :: "real option"
  env_distance_decay_km :: "real option"
  env_hard_max_distance_km :: "real option"
  env_top_k_warehouses :: "real option"
  env_min_incap_fulfillment_ratio :: "real option"
  env_enable_transfer_planner :: bool
  env_transfer_max_pairs :: "real option"
  env_transfer_min_transfer_kg :: "real option"
  env_transfer_overstock_ratio :: "real option"
  env_transfer_understock_ratio :: "real option"
  env_transfer_target_ratio :: "real option"
  env_transfer_cron_hours :: "real option"
  env_transfer_cron_max_runs :: "real option"

text \<open>\<open>a ?? b\<close> with a default at the end of the chain.\<close>

definition or_default :: "'a option \<Rightarrow> 'a \<Rightarrow> 'a" where
  "or_default x d = (case x of None \<Rightarrow> d | Some v \<Rightarrow> v)"

definition or_else :: "'a option \<Rightarrow> 'a option \<Rightarrow> 'a option" where
  "or_else x y = (case x of None \<Rightarrow> y | Some v \<Rightarrow> Some v)"

definition preferredMinDeliveredFreshnessPct :: "env \<Rightarrow> real" where
  "preferredMinDeliveredFreshnessPct e = or_default (env_min_delivered_freshness_pct e) 55"

definition relaxedMinDeliveredFreshnessPct :: "env \<Rightarrow> real" where
  "relaxedMinDeliveredFreshnessPct e = or_default (env_relaxed_min_delivered_freshness_pct e) 25"

definition maxPreferredDistanceKm :: "env \<Rightarrow> real" where
  "maxPreferredDistanceKm e = or_default (env_max_distance_km e) 250"

definition distanceDecayKm :: "env \<Rightarrow> real" where
  "distanceDecayKm e = or_default (env_distance_decay_km e) 70"

definition hardMaxDistanceKm :: "env \<Rightarrow> real" where
  "hardMaxDistanceKm e = or_default (env_hard_max_distance_km e) 450"

definition topKWarehouses :: "env \<Rightarrow> real" where
  "topKWarehouses e = or_default (env_top_k_warehouses e) 12"

definition minInCapFulfillment :: "env \<Rightarrow> real" where
  "minInCapFulfillment e = or_default (env_min_incap_fulfillment_ratio e) 0.6"

definition maxCronRuns :: "env \<Rightarrow> real" where
  "maxCronRuns e = or_default (env_transfer_cron_max_runs e) 250"

record tuning =
  maxPairs :: real
  minTransferKg :: real
  overstockRatio :: real
  understockRatio :: real
  targetRatio :: real

definition plannerTuning :: "options \<Rightarrow> env \<Rightarrow> tuning" where
  "plannerTuning opts e =
     \<lparr> maxPairs = or_default (or_else (transferPlannerMaxPairs opts) (env_transfer_max_pairs e)) 5,
       minTransferKg =
         or_default (or_else (transferPlannerMinTransferKg opts) (env_transfer_min_transfer_kg e)) 200,
       overstockRatio =
         or_default (or_else (transferPlannerOverstockRatio opts) (env_transfer_overstock_ratio e)) 0.8,
       understockRatio =
         or_default (or_else (transferPlannerUnderstockRatio opts) (env_transfer_understock_ratio e)) 0.4,
       targetRatio =
         or_default (or_else (transferPlannerTargetRatio opts) (env_transfer_target_ratio e)) 0.6 \<rparr>"

definition cronHours :: "options \<Rightarrow> env \<Rightarrow> real option" where
  "cronHours opts e =
     (case or_else (transferPlannerCronHours opts) (env_transfer_cron_hours e) of
        None \<Rightarrow> None
      | Some n \<Rightarrow> if 0 < n then Some n else None)"

definition canUseTransferPlanner :: "options \<Rightarrow> env \<Rightarrow> bool" where
  "canUseTransferPlanner opts e \<longleftrightarrow>
     (enableTransferPlanner opts \<or> env_enable_transfer_planner e)
     \<and> (\<not> simulationOnly opts \<or> simulationOnly opts)"

definition useTransferPlannerCron :: "options \<Rightarrow> env \<Rightarrow> bool" where
  "useTransferPlannerCron opts e \<longleftrightarrow> canUseTransferPlanner opts e \<and> cronHours opts e \<noteq> None"

section \<open>The transfer planner: imbalance check and runs\<close>

record planner_error =
  pe_message :: string
  pe_status :: "nat option"

record imbalance =
  im_overstockRatio :: real
  im_understockRatio :: real
  im_targetRatio :: real
  im_minTransferKg :: real
  im_warehouses :: nat
  overCount :: nat
  underCount :: nat
  maxUtil :: "real option"
  minUtil :: "real option"
  utilP50 :: "real option"
  utilP90 :: "real option"
  utilP95 :: "real option"

datatype run_reason = One_shot | Cron_init real | Cron_tick real

text \<open>
  An entry of the timeline of the trace; a field that an entry does not have is \<open>None\<close>.
  The wall-clock duration \<open>elapsedMs\<close> of a run is left out.
\<close>

record timeline_entry =
  te_at :: "ms option"
  te_reason :: run_reason
  te_skipped :: bool
  te_attempted :: bool
  te_suggestedCount :: "nat option"
  te_appliedCount :: "nat option"
  te_appliedKg :: "real option"
  te_error :: "planner_error option"
  te_imbalance :: "imbalance option"

record planner_debug =
  pd_enabled :: bool
  pd_simulationOnly :: bool
  pd_cronHours :: "real option"
  attemptedRuns :: nat
  runs :: nat
  skippedRuns :: nat
  errorRuns :: nat
  lastError :: "planner_error option"
  suggestedTransfers :: nat
  appliedTransfers :: nat
  lastApplied :: "applied_transfer list"
  lastSuggestedCount :: nat
  pd_imbalance :: "imbalance option"
  timeline :: "timeline_entry list"

text \<open>The keys of a \<open>Set\<close>, in the order of their first insertion.\<close>

definition set_keys :: "'a list \<Rightarrow> 'a list" where
  "set_keys xs = rev (remdups (rev xs))"

definition defaultWarehouseCapacityKg :: real where
  "defaultWarehouseCapacityKg = 10000"

text \<open>\<open>capacityById.get(id)\<close>: in a \<open>Map\<close> built from entries the last entry of a key wins.\<close>

definition capacityById :: "node list \<Rightarrow> string \<Rightarrow> real" where
  "capacityById whList i =
     (case find (\<lambda>w. nid w = i) (rev whList) of
        None \<Rightarrow> defaultWarehouseCapacityKg
      | Some w \<Rightarrow>
          (case capacity_kg w of
             Fin capRaw \<Rightarrow> if 0 < capRaw then capRaw else defaultWarehouseCapacityKg
           | _ \<Rightarrow> defaultWarehouseCapacityKg))"

text \<open>\<open>inventoryById.get(id) || 0\<close> for a warehouse identifier.\<close>

definition inventoryById :: "batch list \<Rightarrow> string \<Rightarrow> real" where
  "inventoryById unusedBatches i =
     sum_list (map quantity_kg
       (filter (\<lambda>b. status b = Stored \<and> currentNode b = i \<and> 0 < quantity_kg b) unusedBatches))"

definition utilization :: "node list \<Rightarrow> batch list \<Rightarrow> string \<Rightarrow> real" where
  "utilization whList unusedBatches i =
     (let inv = inventoryById unusedBatches i; cap = capacityById whList i
      in if 0 < cap then inv / cap else 0)"

definition round3 :: "real \<Rightarrow> real" where
  "round3 v = js_round (v * 1000) / 1000"

definition percentile :: "real list \<Rightarrow> real \<Rightarrow> real option" where
  "percentile sortedUtils p =
     (if sortedUtils = [] then None
      else let clamped = min 1 (max 0 p);
               idx = nat \<lfloor>clamped * real (length sortedUtils - 1)\<rfloor>
           in Some (round3 (sortedUtils ! idx)))"

definition imbalance_stats :: "tuning \<Rightarrow> node list \<Rightarrow> batch list \<Rightarrow> imbalance" where
  "imbalance_stats tn whList unusedBatches =
     (let whIdSet = set_keys (map nid whList);
          utils = map (utilization whList unusedBatches) whIdSet;
          sortedUtils = js_sort (\<lambda>a b. a - b) utils
      in \<lparr> im_overstockRatio = overstockRatio tn, im_understockRatio = understockRatio tn,
            im_targetRatio = targetRatio tn, im_minTransferKg = minTransferKg tn,
            im_warehouses = length whIdSet,
            overCount = length (filter (\<lambda>u. overstockRatio tn \<le> u) utils),
            underCount = length (filter (\<lambda>u. u \<le> understockRatio tn) utils),
            maxUtil = (case utils of [] \<Rightarrow> None | u # us \<Rightarrow> Some (round3 (fold max us u))),
            minUtil = (case utils of [] \<Rightarrow> None | u # us \<Rightarrow> Some (round3 (fold min us u))),
            utilP50 = percentile sortedUtils 0.5, utilP90 = percentile sortedUtils 0.9,
            utilP95 = percentile sortedUtils 0.95 \<rparr>)"

text \<open>
  \<open>shouldRunTransferPlanner()\<close>: it stores the statistics in the trace and answers
  whether a warehouse is overstocked and another understocked.
\<close>

definition shouldRunTransferPlanner ::
  "tuning \<Rightarrow> node list \<Rightarrow> batch list \<times> planner_debug \<Rightarrow> bool \<times> planner_debug" where
  "shouldRunTransferPlanner tn whList st =
     (let im = imbalance_stats tn whList (fst st);
          dbg = (snd st)\<lparr>pd_imbalance := Some im\<rparr>
      in if overCount im = 0 \<or> underCount im = 0 then (False, dbg) else (True, dbg))"

text \<open>
  The answer of the external planner to one request: a failure (an error or a timeout of
  the call), or a body whose field \<open>warehouse_to_warehouse\<close> holds the suggestions
  (\<open>None\<close> when it is not an array).  The planner is a parameter: a function of the number
  of earlier attempts and of the inventory sent.
\<close>

datatype planner_response = Planner_failed planner_error | Planner_answer "suggestion list option"

definition runTransferPlannerOnce ::
  "(nat \<Rightarrow> batch list \<Rightarrow> planner_response) \<Rightarrow> options \<Rightarrow> ms \<Rightarrow> run_reason \<Rightarrow> ms option
   \<Rightarrow> batch list \<times> planner_debug \<Rightarrow> batch list \<times> planner_debug" where
  "runTransferPlannerOnce planner opts clock reason now st =
     (let unusedBatches = fst st;
          dbg = (snd st)\<lparr>attemptedRuns := attemptedRuns (snd st) + 1\<rparr>
      in case planner (attemptedRuns (snd st)) unusedBatches of
           Planner_answer transfers \<Rightarrow>
             let suggestedCount = (case transfers of None \<Rightarrow> 0 | Some ts \<Rightarrow> length ts);
                 applied = applyWarehouseTransfersToBatches unusedBatches transfers
                             (case now of
                                Some n \<Rightarrow> n
                              | None \<Rightarrow> or_default (referenceDate opts) clock)
             in (fst applied,
                 dbg\<lparr> suggestedTransfers := suggestedTransfers dbg + suggestedCount,
                      lastSuggestedCount := suggestedCount,
                      runs := runs dbg + 1,
                      appliedTransfers := appliedTransfers dbg + length (snd applied),
                      lastApplied := snd applied,
                      timeline := timeline dbg @
                        [\<lparr> te_at = now, te_reason = reason, te_skipped = False,
                            te_attempted = True, te_suggestedCount = Some suggestedCount,
                            te_appliedCount = Some (length (snd applied)),
                            te_appliedKg =
                              Some (js_round
                                (sum_list (map applied_quantity_kg (snd applied)) * 100) / 100),
                            te_error = None, te_imbalance = None \<rparr>] \<rparr>)
         | Planner_failed err \<Rightarrow>
             (unusedBatches,
              dbg\<lparr> errorRuns := errorRuns dbg + 1,
                   lastError := Some err,
                   timeline := timeline dbg @
                     [\<lparr> te_at = now, te_reason = reason, te_skipped = False,
                         te_attempted = True, te_suggestedCount = Some 0,
                         te_appliedCount = Some 0, te_appliedKg = Some 0,
                         te_error = Some err, te_imbalance = None \<rparr>] \<rparr>))"

text \<open>
  What the code does at each of the three places where a run is due (one-shot, the first
  run of the cron schedule, a tick of it): a run if \<open>shouldRunTransferPlanner()\<close> holds,
  a skipped entry with the imbalance statistics otherwise.
\<close>

definition planner_run_or_skip ::
  "(nat \<Rightarrow> batch list \<Rightarrow> planner_response) \<Rightarrow> options \<Rightarrow> ms \<Rightarrow> tuning \<Rightarrow> node list
   \<Rightarrow> run_reason \<Rightarrow> ms option \<Rightarrow> ms option
   \<Rightarrow> batch list \<times> planner_debug \<Rightarrow> batch list \<times> planner_debug" where
  "planner_run_or_skip planner opts clock tn whList reason now skippedAt st =
     (case shouldRunTransferPlanner tn whList st of
        (True, dbg) \<Rightarrow> runTransferPlannerOnce planner opts clock reason now (fst st, dbg)
      | (False, dbg) \<Rightarrow>
          (fst st,
           dbg\<lparr> skippedRuns := skippedRuns dbg + 1,
                timeline := timeline dbg @
                  [\<lparr> te_at = skippedAt, te_reason = reason, te_skipped = True,
                      te_attempted = False, te_suggestedCount = None, te_appliedCount = None,
                      te_appliedKg = None, te_error = None,
                      te_imbalance = pd_imbalance dbg \<rparr>] \<rparr>))"

section \<open>The scored allocator (allocateML): demand signals and scoring\<close>

record signal_result =
  sr_state :: "string option"
  sr_district :: "string option"
  anomaly_score :: "real option"
  is_anomaly :: bool

record signal =
  anomalyScore :: real
  isAnomaly :: bool

text \<open>
  The answer of the external demand-signal service: a failure of the call (an error or a
  timeout), or a body whose field \<open>results\<close> holds the signals (\<open>None\<close> when it is not an
  array).
\<close>

datatype predict_response = Predict_failed | Predict_answer "signal_result list option"

text \<open>\<open>s || d\<close> for a string that may be absent or empty.\<close>

definition str_or :: "string option \<Rightarrow> string \<Rightarrow> string" where
  "str_or s d = (case s of None \<Rightarrow> d | Some x \<Rightarrow> if x = [] then d else x)"

definition regionalSignals :: "predict_response \<Rightarrow> (string \<times> signal) list" where
  "regionalSignals resp =
     (case resp of
        Predict_failed \<Rightarrow> []
      | Predict_answer None \<Rightarrow> []
      | Predict_answer (Some results) \<Rightarrow>
          map (\<lambda>r. (str_or (sr_state r) ''Unknown'' @ ''-'' @ str_or (sr_district r) ''Unknown'',
                     \<lparr> anomalyScore = or_default (anomaly_score r) 0,
                        isAnomaly = is_anomaly r \<rparr>))
            (filter (\<lambda>r. str_or (sr_state r) [] \<noteq> [] \<or> str_or (sr_district r) [] \<noteq> []) results))"

definition regionKey :: "node \<Rightarrow> string" where
  "regionKey ngoNode =
     str_or (nstate ngoNode) (str_or (nregionId ngoNode) ''Unknown'') @ ''-''
       @ str_or (ndistrict ngoNode) ''Unknown''"

definition urgencyBoost :: "(string \<times> signal) list \<Rightarrow> node \<Rightarrow> real" where
  "urgencyBoost signals ngoNode =
     (case map_of (rev signals) (regionKey ngoNode) of
        None \<Rightarrow> 1
      | Some sg \<Rightarrow> if isAnomaly sg then 1.1 else 1)"

record scored =
  sc_batch :: batch
  remainingHours :: jsnum
  freshnessAtDelivery :: real

definition ml_cmp :: "scored \<Rightarrow> scored \<Rightarrow> real" where
  "ml_cmp a b =
     (if freshnessAtDelivery b - freshnessAtDelivery a \<noteq> 0
      then freshnessAtDelivery b - freshnessAtDelivery a
      else jsnum_diff (remainingHours a) (remainingHours b))"

definition deliveryTime :: "ms \<Rightarrow> real \<Rightarrow> ms" where
  "deliveryTime dispatchTime distance =
     time_clip (real_of_int dispatchTime + estimateTravelHours distance * 3600 * 1000)"

definition candidateBatches :: "batch list \<Rightarrow> string \<Rightarrow> string \<Rightarrow> ms \<Rightarrow> ms \<Rightarrow> scored list" where
  "candidateBatches unusedBatches ft whId dispatchTime delivery =
     filter (\<lambda>x. jsnum_pos (remainingHours x) \<and> 0 < freshnessAtDelivery x)
       (map (\<lambda>b. \<lparr> sc_batch = b,
                    remainingHours = safeRemainingShelfLifeHours b dispatchTime,
                    freshnessAtDelivery = calculateFreshnessPct b delivery 25 \<rparr>)
          (filter (\<lambda>b. foodType b = ft \<and> currentNode b \<noteq> [] \<and> currentNode b = whId
                        \<and> status b = Stored \<and> available_by b dispatchTime)
             unusedBatches))"

text \<open>
  The three tiers; the result is the list \<open>availableBatches\<close> with the flags
  \<open>usingRelaxed\<close> and \<open>usingFallback\<close>.
\<close>

definition tiered :: "env \<Rightarrow> scored list \<Rightarrow> scored list \<times> bool \<times> bool" where
  "tiered e cands =
     (let strictEligible =
            js_sort ml_cmp
              (filter (\<lambda>x. preferredMinDeliveredFreshnessPct e \<le> freshnessAtDelivery x) cands);
          relaxedEligible =
            js_sort ml_cmp
              (filter (\<lambda>x. relaxedMinDeliveredFreshnessPct e \<le> freshnessAtDelivery x) cands);
          fallbackEligible = js_sort ml_cmp (filter (\<lambda>x. 0 < freshnessAtDelivery x) cands);
          s1 = (if strictEligible = [] \<and> relaxedEligible \<noteq> []
                then (relaxedEligible, True, False) else (strictEligible, False, False))
      in if fst s1 = [] \<and> fallbackEligible \<noteq> [] then (fallbackEligible, True, True) else s1)"

text \<open>
  The loop that weighs the delivered freshness and the expiry pressure; for a batch
  without an expiry \<open>1 / (1 + Infinity / 24)\<close> is 0.
\<close>

definition expiryPressure :: "jsnum \<Rightarrow> real" where
  "expiryPressure h = (case h of Fin r \<Rightarrow> 1 / (1 + r / 24) | _ \<Rightarrow> 0)"

fun weigh :: "real \<Rightarrow> scored list \<Rightarrow> real \<Rightarrow> real \<times> real \<Rightarrow> real \<times> real" where
  "weigh required [] cumulativeQty acc = acc"
| "weigh required (x # xs) cumulativeQty (wFresh, wPress) =
     (let usableQty = min (quantity_kg (sc_batch x)) (required - cumulativeQty);
          wFresh' = wFresh + freshnessAtDelivery x * (usableQty / required);
          wPress' = wPress + expiryPressure (remainingHours x) * (usableQty / required);
          cumulativeQty' = cumulativeQty + usableQty
      in if required \<le> cumulativeQty' then (wFresh', wPress')
         else weigh required xs cumulativeQty' (wFresh', wPress'))"

definition fulfillmentRatio :: "scored list \<Rightarrow> real \<Rightarrow> real" where
  "fulfillmentRatio availableBatches required =
     min 1 (sum_list (map (\<lambda>x. quantity_kg (sc_batch x)) availableBatches) / required)"

definition candidate_score ::
  "env \<Rightarrow> real \<Rightarrow> real \<Rightarrow> real \<Rightarrow> scored list \<times> bool \<times> bool \<Rightarrow> real" where
  "candidate_score e boost required distance tier =
     (let availableBatches = fst tier;
          (weightedDeliveredFreshness, weightedExpiryPressure) =
             weigh required availableBatches 0 (0, 0);
          distanceScore = exp (- distance / distanceDecayKm e);
          score = (distanceScore * 0.1 + weightedDeliveredFreshness / 100 * 0.45
                   + weightedExpiryPressure * 0.05
                   + fulfillmentRatio availableBatches required * 0.4) * boost
      in if snd (snd tier) then score * 0.95
         else if fst (snd tier) then score * 0.98 else score)"

text \<open>
  The best candidate so far; a score of \<open>None\<close> is the initial \<open>-Infinity\<close>.
\<close>

record best =
  bestScore :: "real option"
  bestWarehouse :: "node option"
  bestBatches :: "scored list"
  bestFulfillment :: real

definition no_best :: best where
  "no_best = \<lparr> bestScore = None, bestWarehouse = None, bestBatches = [], bestFulfillment = 0 \<rparr>"

definition beats :: "real \<Rightarrow> best \<Rightarrow> bool" where
  "beats score b = (case bestScore b of None \<Rightarrow> True | Some s \<Rightarrow> s < score)"

text \<open>
  One candidate warehouse of \<open>evaluateCandidates\<close>; the state is the best candidate
  overall and the best within the preferred distance.  With a required quantity of 0 the
  divisions by it make the score \<open>NaN\<close> or \<open>-Infinity\<close>, which beats nothing.
\<close>

definition evaluate_candidate ::
  "env \<Rightarrow> real \<Rightarrow> item \<Rightarrow> ms \<Rightarrow> batch list \<Rightarrow> node \<times> real \<Rightarrow> best \<times> best \<Rightarrow> best \<times> best" where
  "evaluate_candidate e boost it dispatchTime unusedBatches cand bests =
     (let wh = fst cand; distance = snd cand;
          tier = tiered e (candidateBatches unusedBatches (item_foodType it) (nid wh)
                             dispatchTime (deliveryTime dispatchTime distance))
      in if fst tier = [] then bests
         else if required_kg it = 0 then bests
         else let score = candidate_score e boost (required_kg it) distance tier;
                  this = \<lparr> bestScore = Some score, bestWarehouse = Some wh,
                           bestBatches = fst tier,
                           bestFulfillment = fulfillmentRatio (fst tier) (required_kg it) \<rparr>;
                  overall = (if beats score (fst bests) then this else fst bests);
                  inCap = (if distance \<le> maxPreferredDistanceKm e \<and> beats score (snd bests)
                           then this else snd bests)
              in (overall, inCap))"

definition evaluateCandidates ::
  "env \<Rightarrow> real \<Rightarrow> item \<Rightarrow> ms \<Rightarrow> batch list \<Rightarrow> (node \<times> real) list \<Rightarrow> best \<times> best \<Rightarrow> best \<times> best" where
  "evaluateCandidates e boost it dispatchTime unusedBatches cands bests =
     fold (evaluate_candidate e boost it dispatchTime unusedBatches) cands bests"

definition allWarehouseCandidates ::
  "(node \<Rightarrow> node \<Rightarrow> real) \<Rightarrow> env \<Rightarrow> node \<Rightarrow> node list \<Rightarrow> (node \<times> real) list" where
  "allWarehouseCandidates distFn e ngoNode warehouses =
     js_sort (\<lambda>a b. snd a - snd b)
       (filter (\<lambda>x. 0 \<le> snd x \<and> snd x \<le> hardMaxDistanceKm e)
          (map (\<lambda>w. (w, distFn ngoNode w)) warehouses))"

text \<open>The winning warehouse of a line item with its ranked batches, if there is one.\<close>

definition choose_best ::
  "(node \<Rightarrow> node \<Rightarrow> real) \<Rightarrow> env \<Rightarrow> real \<Rightarrow> node \<Rightarrow> node list \<Rightarrow> item \<Rightarrow> ms \<Rightarrow> batch list
   \<Rightarrow> (node \<times> scored list) option" where
  "choose_best distFn e boost ngoNode warehouses it dispatchTime unusedBatches =
     (let allCands = allWarehouseCandidates distFn e ngoNode warehouses;
          primaryCandidates = take (nat \<lfloor>max 1 (topKWarehouses e)\<rfloor>) allCands;
          b1 = evaluateCandidates e boost it dispatchTime unusedBatches primaryCandidates
                 (no_best, no_best);
          b2 = (if length primaryCandidates < length allCands
                   \<and> (bestWarehouse (fst b1) = None \<or> bestFulfillment (fst b1) < 0.95)
                then evaluateCandidates e boost it dispatchTime unusedBatches allCands b1
                else b1);
          useInCap = (bestWarehouse (snd b2) \<noteq> None
                      \<and> minInCapFulfillment e \<le> bestFulfillment (snd b2));
          chosen = (if useInCap then snd b2 else fst b2)
      in case bestWarehouse chosen of
           None \<Rightarrow> None
         | Some wh \<Rightarrow> Some (wh, bestBatches chosen))"

definition ml_item ::
  "(node \<Rightarrow> node \<Rightarrow> real) \<Rightarrow> env \<Rightarrow> real \<Rightarrow> node \<Rightarrow> node list \<Rightarrow> string \<Rightarrow> ms \<Rightarrow> item
   \<Rightarrow> batch list \<Rightarrow> js_error + allocation option \<times> batch list" where
  "ml_item distFn e boost ngoNode warehouses reqId dispatchTime it unusedBatches =
     (case choose_best distFn e boost ngoNode warehouses it dispatchTime unusedBatches of
        None \<Rightarrow> Inr (None, unusedBatches)
      | Some (wh, ranked) \<Rightarrow>
          (case consume (\<lambda>b. calculateFreshnessPct b dispatchTime 25) (map sc_batch ranked)
                  (required_kg it) [] unusedBatches of
             Inl err \<Rightarrow> Inl err
           | Inr (remaining, usedBatches, unused') \<Rightarrow>
               Inr (Some \<lparr> requestId = reqId, alloc_foodType = item_foodType it,
                           alloc_required_kg = required_kg it,
                           allocated_kg = js_sub (required_kg it) remaining,
                           alloc_warehouse = nid wh, warehouseName = nname wh,
                           distance_km = distFn ngoNode wh, alloc_batches = usedBatches,
                           strategy = ''ml'', alloc_dispatchTime = dispatchTime \<rparr>,
                    unused')))"

fun ml_items ::
  "(node \<Rightarrow> node \<Rightarrow> real) \<Rightarrow> env \<Rightarrow> real \<Rightarrow> node \<Rightarrow> node list \<Rightarrow> string \<Rightarrow> ms \<Rightarrow> item list
   \<Rightarrow> allocation list \<times> batch list \<Rightarrow> js_error + allocation list \<times> batch list" where
  "ml_items distFn e boost ngoNode warehouses reqId dispatchTime [] st = Inr st"
| "ml_items distFn e boost ngoNode warehouses reqId dispatchTime (it # its) (allocations, unusedBatches) =
     (case ml_item distFn e boost ngoNode warehouses reqId dispatchTime it unusedBatches of
        Inl err \<Rightarrow> Inl err
      | Inr (a, unused') \<Rightarrow>
          ml_items distFn e boost ngoNode warehouses reqId dispatchTime its
            (allocations @ (case a of None \<Rightarrow> [] | Some x \<Rightarrow> [x]), unused'))"

section \<open>The scored allocator (allocateML): requests and the cron schedule\<close>

text \<open>
  The \<open>while\<close> loop of the cron schedule: as long as the run count allows it and the
  dispatch time has reached the next boundary, the schedule advances by one interval and
  a run is due.  The result is the run count, the last boundary and the inventory with
  the trace.
\<close>

function cron_ticks ::
  "(nat \<Rightarrow> batch list \<Rightarrow> planner_response) \<Rightarrow> options \<Rightarrow> ms \<Rightarrow> tuning \<Rightarrow> node list \<Rightarrow> real
   \<Rightarrow> real \<Rightarrow> ms \<Rightarrow> nat \<Rightarrow> ms \<Rightarrow> batch list \<times> planner_debug
   \<Rightarrow> nat \<times> ms \<times> batch list \<times> planner_debug" where
  "cron_ticks planner opts clock tn whList maxRuns hours dispatchTime cronRuns nextCronRunAt pst =
     (if real cronRuns < maxRuns
         \<and> real_of_int nextCronRunAt + hours * 3600 * 1000 \<le> real_of_int dispatchTime
      then cron_ticks planner opts clock tn whList maxRuns hours dispatchTime (cronRuns + 1)
             (time_clip (real_of_int nextCronRunAt + hours * 3600 * 1000))
             (planner_run_or_skip planner opts clock tn whList (Cron_tick hours)
                (Some (time_clip (real_of_int nextCronRunAt + hours * 3600 * 1000)))
                (Some (time_clip (real_of_int nextCronRunAt + hours * 3600 * 1000))) pst)
      else (cronRuns, nextCronRunAt, pst))"
  by pat_completeness auto

termination
proof (relation "measure (\<lambda>(planner, opts, clock, tn, whList, maxRuns, hours, dispatchTime,
                            cronRuns, nextCronRunAt, pst). nat \<lceil>maxRuns\<rceil> - cronRuns)")
  show "wf (measure (\<lambda>(planner :: nat \<Rightarrow> batch list \<Rightarrow> planner_response, opts :: options,
                        clock :: ms, tn :: tuning, whList :: node list, maxRuns :: real,
                        hours :: real, dispatchTime :: ms, cronRuns :: nat,
                        nextCronRunAt :: ms, pst :: batch list \<times> planner_debug).
                      nat \<lceil>maxRuns\<rceil> - cronRuns))"
    by simp
next
  fix planner :: "nat \<Rightarrow> batch list \<Rightarrow> planner_response" and opts :: options and clock :: ms
    and tn :: tuning and whList :: "node list" and maxRuns hours :: real
    and dispatchTime :: ms and cronRuns :: nat and nextCronRunAt :: ms
    and pst :: "batch list \<times> planner_debug"
  assume "real cronRuns < maxRuns
          \<and> real_of_int nextCronRunAt + hours * 3600 * 1000 \<le> real_of_int dispatchTime"
  then have "real cronRuns < of_int \<lceil>maxRuns\<rceil>"
    using le_of_int_ceiling [of maxRuns] by linarith
  then have "int cronRuns < \<lceil>maxRuns\<rceil>"
    by (metis of_int_less_iff of_int_of_nat_eq)
  then show "((planner, opts, clock, tn, whList, maxRuns, hours, dispatchTime, cronRuns + 1,
               time_clip (real_of_int nextCronRunAt + hours * 3600 * 1000),
               planner_run_or_skip planner opts clock tn whList (Cron_tick hours)
                 (Some (time_clip (real_of_int nextCronRunAt + hours * 3600 * 1000)))
                 (Some (time_clip (real_of_int nextCronRunAt + hours * 3600 * 1000))) pst),
              (planner, opts, clock, tn, whList, maxRuns, hours, dispatchTime, cronRuns,
               nextCronRunAt, pst))
            \<in> measure (\<lambda>(planner, opts, clock, tn, whList, maxRuns, hours, dispatchTime,
                            cronRuns, nextCronRunAt, pst). nat \<lceil>maxRuns\<rceil> - cronRuns)"
    by simp
qed

declare cron_ticks.simps [simp del]

record ml_state =
  ms_allocations :: "allocation list"
  ms_unused :: "batch list"
  ms_debug :: planner_debug
  ms_cronRuns :: nat
  ms_nextCronRunAt :: "ms option"

text \<open>
  The cron part of the loop over the requests.  The first request anchors the schedule
  (\<open>cron_init\<close>): a first run is due at the anchor if the run count allows it.
\<close>

definition cron_init ::
  "(nat \<Rightarrow> batch list \<Rightarrow> planner_response) \<Rightarrow> options \<Rightarrow> ms \<Rightarrow> env \<Rightarrow> node list \<Rightarrow> real \<Rightarrow> ms
   \<Rightarrow> ml_state \<Rightarrow> ml_state" where
  "cron_init planner opts clock e whList hours dispatchTime st =
     (case ms_nextCronRunAt st of
        Some n \<Rightarrow> st
      | None \<Rightarrow>
          let anchor = or_default (or_else (referenceDate opts) (dispatchTimeFloor opts))
                         dispatchTime
          in if real (ms_cronRuns st) < maxCronRuns e
             then let pst = planner_run_or_skip planner opts clock (plannerTuning opts e) whList
                              (Cron_init hours) (Some anchor) (Some anchor)
                              (ms_unused st, ms_debug st)
                  in st\<lparr> ms_nextCronRunAt := Some anchor,
                         ms_cronRuns := ms_cronRuns st + 1,
                         ms_unused := fst pst, ms_debug := snd pst \<rparr>
             else st\<lparr> ms_nextCronRunAt := Some anchor \<rparr>)"

text \<open>Then the ticks up to the dispatch time follow.\<close>

definition cron_step ::
  "(nat \<Rightarrow> batch list \<Rightarrow> planner_response) \<Rightarrow> options \<Rightarrow> ms \<Rightarrow> env \<Rightarrow> node list \<Rightarrow> real \<Rightarrow> ms
   \<Rightarrow> ml_state \<Rightarrow> ml_state" where
  "cron_step planner opts clock e whList hours dispatchTime st =
     (let st1 = cron_init planner opts clock e whList hours dispatchTime st
      in case ms_nextCronRunAt st1 of
           None \<Rightarrow> st1
         | Some n \<Rightarrow>
             (case cron_ticks planner opts clock (plannerTuning opts e) whList (maxCronRuns e)
                     hours dispatchTime (ms_cronRuns st1) n (ms_unused st1, ms_debug st1) of
                (runs', next', pst') \<Rightarrow>
                  st1\<lparr> ms_cronRuns := runs', ms_nextCronRunAt := Some next',
                        ms_unused := fst pst', ms_debug := snd pst' \<rparr>))"

definition ml_dispatch_time :: "options \<Rightarrow> ms \<Rightarrow> request \<Rightarrow> ms" where
  "ml_dispatch_time opts clock r =
     clamp_dispatch opts
       (case referenceDate opts of
          Some ref \<Rightarrow>
            if dispatchTimeFloor opts = None \<and> dispatchTimeCeil opts = None then ref
            else request_time clock r
        | None \<Rightarrow> request_time clock r)"

definition ml_request ::
  "(node \<Rightarrow> node \<Rightarrow> real) \<Rightarrow> (nat \<Rightarrow> batch list \<Rightarrow> planner_response) \<Rightarrow> ms \<Rightarrow> env \<Rightarrow> options
   \<Rightarrow> (string \<times> signal) list \<Rightarrow> ngo_org list \<Rightarrow> node list \<Rightarrow> node list \<Rightarrow> request
   \<Rightarrow> ml_state \<Rightarrow> js_error + ml_state" where
  "ml_request distFn planner clock e opts signals ngoOrgs warehouses ngos r st =
     (case find_ngo_node ngoOrgs ngos r of
        None \<Rightarrow> Inr st
      | Some ngoNode \<Rightarrow>
          let dispatchTime = ml_dispatch_time opts clock r;
              st1 = (case cronHours opts e of
                       Some hours \<Rightarrow>
                         if canUseTransferPlanner opts e
                         then cron_step planner opts clock e warehouses hours dispatchTime st
                         else st
                     | None \<Rightarrow> st)
          in case ml_items distFn e (urgencyBoost signals ngoNode) ngoNode warehouses
                    (requestID r) dispatchTime (items r) (ms_allocations st1, ms_unused st1) of
               Inl err \<Rightarrow> Inl err
             | Inr (allocations, unused') \<Rightarrow>
                 Inr (st1\<lparr> ms_allocations := allocations, ms_unused := unused' \<rparr>))"

fun ml_requests ::
  "(node \<Rightarrow> node \<Rightarrow> real) \<Rightarrow> (nat \<Rightarrow> batch list \<Rightarrow> planner_response) \<Rightarrow> ms \<Rightarrow> env \<Rightarrow> options
   \<Rightarrow> (string \<times> signal) list \<Rightarrow> ngo_org list \<Rightarrow> node list \<Rightarrow> node list \<Rightarrow> request list
   \<Rightarrow> ml_state \<Rightarrow> js_error + ml_state" where
  "ml_requests distFn planner clock e opts signals ngoOrgs warehouses ngos [] st = Inr st"
| "ml_requests distFn planner clock e opts signals ngoOrgs warehouses ngos (r # rs) st =
     (case ml_request distFn planner clock e opts signals ngoOrgs warehouses ngos r st of
        Inl err \<Rightarrow> Inl err
      | Inr st' \<Rightarrow>
          ml_requests distFn planner clock e opts signals ngoOrgs warehouses ngos rs st')"

definition request_sort_key :: "request \<Rightarrow> ms" where
  "request_sort_key r =
     (case req_dispatchTime r of
        Some d \<Rightarrow> d
      | None \<Rightarrow> (case createdOn r of Some c \<Rightarrow> c | None \<Rightarrow> 0))"

definition initial_debug :: "options \<Rightarrow> env \<Rightarrow> planner_debug" where
  "initial_debug opts e =
     \<lparr> pd_enabled = canUseTransferPlanner opts e, pd_simulationOnly = simulationOnly opts,
       pd_cronHours = cronHours opts e, attemptedRuns = 0, runs = 0, skippedRuns = 0,
       errorRuns = 0, lastError = None, suggestedTransfers = 0, appliedTransfers = 0,
       lastApplied = [], lastSuggestedCount = 0, pd_imbalance = None, timeline = [] \<rparr>"

text \<open>
  \<open>allocateML(requests, batches, warehouses, ngos, options)\<close>.  Besides the parameters of
  the baseline allocator it takes the environment, the answer of the demand-signal
  service and the planner.  The result is the list of allocations and the trace that the
  code stores in \<open>options._transferPlannerDebug\<close>.
\<close>

definition allocateML_with ::
  "(node \<Rightarrow> node \<Rightarrow> real) \<Rightarrow> predict_response \<Rightarrow> (nat \<Rightarrow> batch list \<Rightarrow> planner_response)
   \<Rightarrow> ms \<Rightarrow> env \<Rightarrow> ngo_org list \<Rightarrow> request list \<Rightarrow> batch list \<Rightarrow> node list \<Rightarrow> node list
   \<Rightarrow> options \<Rightarrow> js_error + allocation list \<times> planner_debug" where
  "allocateML_with distFn mlResp planner clock e ngoOrgs requests batches warehouses ngos opts =
     (let signals = regionalSignals mlResp;
          pst0 = (batches, initial_debug opts e);
          pst1 = (if canUseTransferPlanner opts e \<and> \<not> useTransferPlannerCron opts e
                  then planner_run_or_skip planner opts clock (plannerTuning opts e) warehouses
                         One_shot None (referenceDate opts) pst0
                  else pst0);
          requestsToProcess =
            (if useTransferPlannerCron opts e
             then js_sort (\<lambda>a b. real_of_int (request_sort_key a - request_sort_key b)) requests
             else requests)
      in case ml_requests distFn planner clock e opts signals ngoOrgs warehouses ngos
                requestsToProcess
                \<lparr> ms_allocations = [], ms_unused = fst pst1, ms_debug = snd pst1,
                   ms_cronRuns = 0, ms_nextCronRunAt = None \<rparr> of
           Inl err \<Rightarrow> Inl err
         | Inr st \<Rightarrow> Inr (ms_allocations st, ms_debug st))"

definition allocateML ::
  "predict_response \<Rightarrow> (nat \<Rightarrow> batch list \<Rightarrow> planner_response) \<Rightarrow> ms \<Rightarrow> env \<Rightarrow> ngo_org list
   \<Rightarrow> request list \<Rightarrow> batch list \<Rightarrow> node list \<Rightarrow> node list \<Rightarrow> options
   \<Rightarrow> js_error + allocation list \<times> planner_debug" where
  "allocateML = allocateML_with node_distance"

section \<open>Example data\<close>

text \<open>Options and an environment in which nothing is set, and plain documents.\<close>

definition no_options :: options where
  "no_options =
     \<lparr> dispatchTimeFloor = None, dispatchTimeCeil = None, referenceDate = None,
       simulationOnly = False, enableTransferPlanner = False, transferPlannerMaxPairs = None,
       transferPlannerMinTransferKg = None, transferPlannerOverstockRatio = None,
       transferPlannerUnderstockRatio = None, transferPlannerTargetRatio = None,
       transferPlannerCronHours = None \<rparr>"

definition no_env :: env where
  "no_env =
     \<lparr> env_min_delivered_freshness_pct = None, env_relaxed_min_delivered_freshness_pct = None,
       env_max_distance_km = None, env_distance_decay_km = None,
       env_hard_max_distance_km = None, env_top_k_warehouses = None,
       env_min_incap_fulfillment_ratio = None, env_enable_transfer_planner = False,
       env_transfer_max_pairs = None, env_transfer_min_transfer_kg = None,
       env_transfer_overstock_ratio = None, env_transfer_understock_ratio = None,
       env_transfer_target_ratio = None, env_transfer_cron_hours = None,
       env_transfer_cron_max_runs = None \<rparr>"

definition mk_node :: "string \<Rightarrow> string \<Rightarrow> jsnum \<Rightarrow> node" where
  "mk_node i n cap =
     \<lparr> nid = i, nname = n, coordinates = (0, 0), capacity_kg = cap, nstate = None,
       ndistrict = None, nregionId = None \<rparr>"

definition mk_request :: "string \<Rightarrow> string \<Rightarrow> string \<Rightarrow> real \<Rightarrow> ms \<Rightarrow> request" where
  "mk_request i org ft kg t =
     \<lparr> requestID = i, requesterNode = org,
       items = [\<lparr> item_foodType = ft, required_kg = kg \<rparr>],
       req_dispatchTime = Some t, createdOn = None \<rparr>"

text \<open>Warehouse A is 10 km from every NGO node, any other warehouse 2000 km.\<close>

definition example_distance :: "node \<Rightarrow> node \<Rightarrow> real" where
  "example_distance ngoNode wh = (if nid wh = ''A'' then 10 else 2000)"

text \<open>
  Two warehouses, A with a capacity of 1000 kg and B without a valid capacity, and two
  inventories: one with A at 90 and B at 20 per cent, one with both at 50 per cent.
\<close>

definition example_warehouses :: "node list" where
  "example_warehouses = [mk_node ''A'' ''WA'' (Fin 1000), mk_node ''B'' ''WB'' NaN]"

definition imbalanced_batches :: "batch list" where
  "imbalanced_batches =
     [mk_batch ''b1'' ''rice'' 900 ''A'' None None, mk_batch ''b2'' ''rice'' 2000 ''B'' None None]"


text \<open>
  What the loop \<open>consume\<close> takes from the ranked batches, without the bookkeeping on
  \<open>unusedBatches\<close>: the batches it reaches, each with the quantity taken from it.
\<close>

fun allot :: "batch list \<Rightarrow> real \<Rightarrow> (batch \<times> real) list" where
  "allot [] remaining = []"
| "allot (b # bs) remaining =
     (if remaining \<le> 0 then []
      else (b, min (quantity_kg b) remaining)
             # allot bs (js_sub remaining (min (quantity_kg b) remaining)))"

text \<open>What the loop leaves of the required quantity.\<close>

fun leftover :: "batch list \<Rightarrow> real \<Rightarrow> real" where
  "leftover [] remaining = remaining"
| "leftover (b # bs) remaining =
     (if remaining \<le> 0 then remaining
      else leftover bs (js_sub remaining (min (quantity_kg b) remaining)))"

definition used_entry :: "(batch \<Rightarrow> real) \<Rightarrow> batch \<times> real \<Rightarrow> used_batch" where
  "used_entry fr x = \<lparr> batchId = bid (fst x), quantity = snd x, freshness = fr (fst x) \<rparr>"

text \<open>
  An NGO organisation with its node, a request of that organisation for rice at time
  \<open>t\<close>, and the inventories of the examples: 60 kg at warehouse A and 100 kg at the
  farther warehouse B; a perishable batch next to an older batch without an expiry; a
  batch that is fresh at dispatch and spoiled after the journey from B; a batch without
  quantity.
\<close>

definition example_orgs :: "ngo_org list" where
  "example_orgs = [\<lparr> org_id = ''org1'', org_name = ''N'' \<rparr>]"

definition example_ngo :: node where
  "example_ngo = mk_node ''n1'' ''N'' NaN"

definition rice :: "real \<Rightarrow> item" where
  "rice kg = \<lparr> item_foodType = ''rice'', required_kg = kg \<rparr>"

definition two_warehouses :: "node list" where
  "two_warehouses = [mk_node ''B'' ''WB'' NaN, mk_node ''A'' ''WA'' NaN]"

definition scenario_batches :: "batch list" where
  "scenario_batches =
     [mk_batch ''b2'' ''rice'' 100 ''B'' (Some 48) (Some 0),
      mk_batch ''b1'' ''rice'' 60 ''A'' (Some 48) (Some 0)]"

definition mixed_batches :: "batch list" where
  "mixed_batches =
     [mk_batch ''perishable'' ''rice'' 60 ''A'' (Some 50) (Some 3600000),
      mk_batch ''keeps'' ''rice'' 30 ''A'' None (Some 0)]"

definition far_batches :: "batch list" where
  "far_batches = [mk_batch ''b5'' ''rice'' 100 ''B'' (Some 48) (Some 0)]"

definition empty_batches :: "batch list" where
  "empty_batches = [mk_batch ''b6'' ''rice'' 0 ''A'' (Some 48) (Some 0)]"

text \<open>The allocation of the second scenario: 60 kg from warehouse A.\<close>

definition scenario_allocation :: allocation where
  "scenario_allocation =
     \<lparr> requestId = ''R1'', alloc_foodType = ''rice'', alloc_required_kg = 100,
       allocated_kg = 60, alloc_warehouse = ''A'', warehouseName = ''WA'', distance_km = 10,
       alloc_batches = [\<lparr> batchId = ''b1'', quantity = 60, freshness = 100 \<rparr>],
       strategy = ''regular'', alloc_dispatchTime = 0 \<rparr>"

text \<open>
  A best candidate is either still empty or holds a candidate warehouse with the ranked
  batches of its tier.
\<close>

definition best_from ::
  "env \<Rightarrow> item \<Rightarrow> ms \<Rightarrow> batch list \<Rightarrow> (node \<times> real) set \<Rightarrow> best \<Rightarrow> bool" where
  "best_from e it d un C b \<longleftrightarrow>
     (bestWarehouse b = None \<or>
      (\<exists>c\<in>C. bestWarehouse b = Some (fst c)
         \<and> bestBatches b = fst (tiered e (candidateBatches un (item_foodType it) (nid (fst c)) d
                                          (deliveryTime d (snd c))))))"

text \<open>
  The ranked batches of warehouse A in the second scenario and with the batch without
  quantity, and the allocations that the scored allocator makes of them.
\<close>

definition scenario_ranked :: "scored list" where
  "scenario_ranked =
     [\<lparr> sc_batch = mk_batch ''b1'' ''rice'' 60 ''A'' (Some 48) (Some 0),
        remainingHours = Fin 38.4, freshnessAtDelivery = 99.35 \<rparr>]"

definition empty_ranked :: "scored list" where
  "empty_ranked =
     [\<lparr> sc_batch = mk_batch ''b6'' ''rice'' 0 ''A'' (Some 48) (Some 0),
        remainingHours = Fin 38.4, freshnessAtDelivery = 99.35 \<rparr>]"

definition ml_allocation :: "real \<Rightarrow> string \<Rightarrow> allocation" where
  "ml_allocation kg b =
     \<lparr> requestId = ''R1'', alloc_foodType = ''rice'', alloc_required_kg = 100,
       allocated_kg = kg, alloc_warehouse = ''A'', warehouseName = ''WA'', distance_km = 10,
       alloc_batches = [\<lparr> batchId = b, quantity = kg, freshness = 100 \<rparr>],
       strategy = ''ml'', alloc_dispatchTime = 0 \<rparr>"

text \<open>
  Two relations between a batch of the inventory during a run and a batch it comes
  from: \<open>kin\<close>, the same batch up to its quantity and its node, and \<open>descends\<close>, which
  also admits the children of splits, whose identifiers extend that of the parent.  Both
  keep the manufacture date and the shelf life, on which the freshness depends.
\<close>

definition kin :: "batch \<Rightarrow> batch \<Rightarrow> bool" where
  "kin b b0 \<longleftrightarrow>
     bid b = bid b0 \<and> manufacture_date b = manufacture_date b0
     \<and> shelf_life_hours b = shelf_life_hours b0"

definition descends :: "batch \<Rightarrow> batch \<Rightarrow> bool" where
  "descends b b0 \<longleftrightarrow>
     (\<exists>sfx. bid b = bid b0 @ sfx) \<and> manufacture_date b = manufacture_date b0
     \<and> shelf_life_hours b = shelf_life_hours b0"

text \<open>
  Two states of the loop over the requests that differ at most in the trace of the
  planner.
\<close>

definition same_run :: "ml_state \<Rightarrow> ml_state \<Rightarrow> bool" where
  "same_run s t \<longleftrightarrow>
     ms_allocations s = ms_allocations t \<and> ms_unused s = ms_unused t
     \<and> ms_cronRuns s = ms_cronRuns t \<and> ms_nextCronRunAt s = ms_nextCronRunAt t"

text \<open>A suggestion to move 0.2 kg from warehouse A to warehouse B.\<close>

definition decimal_suggestion :: suggestion where
  "decimal_suggestion =
     \<lparr> sg_type = None, sg_source = Some ''A'', sg_target = Some ''B'',
       sg_quantity = Fin (round_double (2 / 10)), sg_distance_km = None \<rparr>"

text \<open>A batch of 9.6 kg, the double nearest to that decimal.\<close>

definition decimal_batches :: "batch list" where
  "decimal_batches = [mk_batch ''b7'' ''rice'' (round_double (96 / 10)) ''A'' (Some 48) (Some 0)]"

text \<open>Options that enable the planner, and a planner whose every call times out.\<close>

definition planner_options :: options where
  "planner_options = no_options\<lparr>enableTransferPlanner := True\<rparr>"

definition timeout_error :: planner_error where
  "timeout_error = \<lparr> pe_message = ''timeout of 8000ms exceeded'', pe_status = None \<rparr>"

definition failing_planner :: "nat \<Rightarrow> batch list \<Rightarrow> planner_response" where
  "failing_planner n bs = Planner_failed timeout_error"

section \<open>Properties of the freshness model\<close>


lemma js_round_le_0_iff: "js_round x \<le> 0 \<longleftrightarrow> x < 1 / 2"
proof -
  have "js_round x \<le> 0 \<longleftrightarrow> \<lfloor>x + 1 / 2\<rfloor> < 1"
    by (simp add: js_round_def)
  also have "\<dots> \<longleftrightarrow> x + 1 / 2 < 1"
    by (simp only: floor_less_iff of_int_1)
  finally show ?thesis by (simp add: field_simps)
qed

lemma js_round_nonneg: "0 \<le> x \<Longrightarrow> 0 \<le> js_round x"
  by (simp add: js_round_def)

lemma tempFactor_ge_1: "1 \<le> tempFactor t"
  by (simp add: tempFactor_def)

lemma calculateFreshnessPct_nonneg: "0 \<le> calculateFreshnessPct b cur t"
  by (simp add: calculateFreshnessPct_def js_round_nonneg split: option.splits)

lemma freshness_le_0_iff:
  assumes "manufacture_date b = Some m" "shelf_life_hours b = Some life" "0 < life"
  shows "calculateFreshnessPct b cur t \<le> 0 \<longleftrightarrow>
         100 - elapsedHours m cur / life * 100 * tempFactor t < 1 / 200"
  using assms by (auto simp add: calculateFreshnessPct_def js_round_le_0_iff max_def)


text \<open>
  C3.  The claim takes the freshness for the decay formula clamped to the interval from 0
  to 100 and rounded to two decimals.  \<open>calculateFreshnessPct\<close> applies the lower bound
  only: for a batch with a shelf life of 48 hours, 24 hours before its manufacture date
  and at 25 degrees, the code returns 162.5 where the clamped formula gives 100.  The
  documentation of the function promises a value from 0 to 100; this is the defect of C4.
  The scenario of the claim holds: 24 hours after manufacture the code returns 37.5.
\<close>

theorem calculateFreshnessPct_not_clamped:
  "calculateFreshnessPct (mk_batch ''b1'' ''rice'' 100 ''A'' (Some 48) (Some (24 * 3600000)))
       0 25 = 162.5
   \<and> spec_freshnessPct (elapsedHours (24 * 3600000) 0) 48 25 = 100
   \<and> calculateFreshnessPct (mk_batch ''b1'' ''rice'' 100 ''A'' (Some 48) (Some 0))
       (24 * 3600000) 25 = 37.5
   \<and> spec_freshnessPct (elapsedHours 0 (24 * 3600000)) 48 25 = 37.5"
  by (simp add: calculateFreshnessPct_def spec_freshnessPct_def clamp_def mk_batch_def
        elapsedHours_def tempFactor_def js_round_def)

text \<open>
  C4.  The value of \<open>calculateFreshnessPct\<close> is meant to lie between 0 and 100 (its
  documentation says so), but only the lower bound is enforced: 12 hours before the
  manufacture date of a batch with a shelf life of 48 hours the code returns 131.25.
\<close>

theorem calculateFreshnessPct_above_100:
  "calculateFreshnessPct (mk_batch ''b2'' ''rice'' 100 ''A'' (Some 48) (Some (12 * 3600000)))
       0 25 = 131.25
   \<and> \<not> calculateFreshnessPct
          (mk_batch ''b2'' ''rice'' 100 ''A'' (Some 48) (Some (12 * 3600000))) 0 25 \<le> 100"
  by (simp add: calculateFreshnessPct_def mk_batch_def elapsedHours_def tempFactor_def
        js_round_def)

text \<open>
  C5 (amended).  With a manufacture date and a positive shelf life,
  \<open>remainingShelfLifeHours\<close> is 0 or \<open>shelfLifeHours / tempFactor - elapsedHours\<close>: the
  latter whenever at least 51 millionths of \<open>shelfLifeHours / tempFactor\<close> are left (the
  freshness before rounding is at least 0.0051), and 0 whenever at most 49 millionths of
  it are left (the freshness before rounding is at most 0.0049), in particular after the
  expiry.  In between the rounding of the freshness to two decimals decides: the code
  returns 0 as soon as the rounded freshness is 0, shortly before the formula reaches 0.
  The sort key \<open>safeRemainingShelfLifeHours\<close> is that value at 25 degrees, and is \<open>+\<infinity>\<close>
  for a batch without a manufacture date or without a positive shelf life.  The formula
  is taken in exact arithmetic; the code evaluates it in floating point, whose rounding
  is far smaller than the distance of either threshold from the tie at 0.005.
\<close>

theorem remainingShelfLifeHours_window:
  "(manufacture_date b = Some m \<and> shelf_life_hours b = Some life \<and> 0 < life \<longrightarrow>
      (remainingShelfLifeHours b currentDate avgTemp = Fin 0
       \<or> remainingShelfLifeHours b currentDate avgTemp
           = Fin (life / tempFactor avgTemp - elapsedHours m currentDate))
      \<and> (life / tempFactor avgTemp * 51 / 1000000
            \<le> life / tempFactor avgTemp - elapsedHours m currentDate \<longrightarrow>
          remainingShelfLifeHours b currentDate avgTemp
            = Fin (life / tempFactor avgTemp - elapsedHours m currentDate))
      \<and> (life / tempFactor avgTemp - elapsedHours m currentDate
            \<le> life / tempFactor avgTemp * 49 / 1000000 \<longrightarrow>
          remainingShelfLifeHours b currentDate avgTemp = Fin 0)
      \<and> safeRemainingShelfLifeHours b currentDate = remainingShelfLifeHours b currentDate 25)
   \<and> (manufacture_date b = None \<or> shelf_life_hours b = None
        \<or> (\<exists>life. shelf_life_hours b = Some life \<and> life \<le> 0) \<longrightarrow>
      safeRemainingShelfLifeHours b currentDate = PosInf)"
proof -
  have A: "remainingShelfLifeHours b currentDate avgTemp =
        Fin (if life / tempFactor avgTemp - elapsedHours m currentDate
                  < life / tempFactor avgTemp / 20000
             then 0 else life / tempFactor avgTemp - elapsedHours m currentDate)"
    if h: "manufacture_date b = Some m" "shelf_life_hours b = Some life" "0 < life"
    for avgTemp
  proof -
    define tf where "tf = tempFactor avgTemp"
    define e where "e = elapsedHours m currentDate"
    have tf: "0 < tf" using tempFactor_ge_1 [of avgTemp] by (simp add: tf_def)
    have "100 - e / life * 100 * tf < 1 / 200 \<longleftrightarrow> life / tf - e < life / tf / 20000"
      using tf h(3) by (simp add: field_simps)
    then have iff: "calculateFreshnessPct b currentDate avgTemp \<le> 0 \<longleftrightarrow>
                life / tf - e < life / tf / 20000"
      using freshness_le_0_iff [OF h, of currentDate avgTemp] by (simp add: tf_def e_def)
    have pos: "0 < life / tf / 20000" using tf h(3) by simp
    show ?thesis
      using iff pos h(1,2) unfolding remainingShelfLifeHours_def tf_def e_def
      by (auto simp add: max_def)
  qed
  have M: "(remainingShelfLifeHours b currentDate avgTemp = Fin 0
       \<or> remainingShelfLifeHours b currentDate avgTemp
           = Fin (life / tempFactor avgTemp - elapsedHours m currentDate))
      \<and> (life / tempFactor avgTemp * 51 / 1000000
            \<le> life / tempFactor avgTemp - elapsedHours m currentDate \<longrightarrow>
          remainingShelfLifeHours b currentDate avgTemp
            = Fin (life / tempFactor avgTemp - elapsedHours m currentDate))
      \<and> (life / tempFactor avgTemp - elapsedHours m currentDate
            \<le> life / tempFactor avgTemp * 49 / 1000000 \<longrightarrow>
          remainingShelfLifeHours b currentDate avgTemp = Fin 0)"
    if h: "manufacture_date b = Some m" "shelf_life_hours b = Some life" "0 < life"
  proof -
    define total where "total = life / tempFactor avgTemp"
    define left where "left = total - elapsedHours m currentDate"
    have total: "0 < total"
      using tempFactor_ge_1 [of avgTemp] h(3) by (simp add: total_def)
    have r: "remainingShelfLifeHours b currentDate avgTemp
             = Fin (if left < total / 20000 then 0 else left)"
      using A [OF h, of avgTemp] by (simp add: left_def total_def)
    have 1: "left < total / 20000" if "left \<le> total * 49 / 1000000"
      using that total by simp
    have 2: "\<not> left < total / 20000" if "total * 51 / 1000000 \<le> left"
      using that total by simp
    show ?thesis
      unfolding left_def [symmetric, unfolded total_def] total_def [symmetric]
        left_def [symmetric]
      using r 1 2 by auto
  qed
  have B: "safeRemainingShelfLifeHours b currentDate = remainingShelfLifeHours b currentDate 25"
    if h: "manufacture_date b = Some m" "shelf_life_hours b = Some life" "0 < life"
    using h A [OF h, of 25] by (simp add: safeRemainingShelfLifeHours_def)
  have C: "safeRemainingShelfLifeHours b currentDate = PosInf"
    if "manufacture_date b = None \<or> shelf_life_hours b = None
        \<or> (\<exists>life. shelf_life_hours b = Some life \<and> life \<le> 0)"
    using that by (auto simp add: safeRemainingShelfLifeHours_def split: option.splits)
  from M B C show ?thesis by blast
qed

text \<open>
  A batch with a shelf life of 50 hours has 40 hours at 25 degrees: 10 hours after
  manufacture 30 hours are left, after 40 hours none; a batch without a shelf life has
  the sort key \<open>+\<infinity>\<close>.
\<close>

theorem remainingShelfLifeHours_window_witness:
  "remainingShelfLifeHours (mk_batch ''b3'' ''rice'' 100 ''A'' (Some 50) (Some 0))
       (10 * 3600000) 25 = Fin 30
   \<and> safeRemainingShelfLifeHours (mk_batch ''b3'' ''rice'' 100 ''A'' (Some 50) (Some 0))
       (10 * 3600000) = Fin 30
   \<and> remainingShelfLifeHours (mk_batch ''b3'' ''rice'' 100 ''A'' (Some 50) (Some 0))
       (40 * 3600000) 25 = Fin 0
   \<and> safeRemainingShelfLifeHours (mk_batch ''b4'' ''rice'' 100 ''A'' None (Some 0))
       (10 * 3600000) = PosInf"
proof -
  note t1 = remainingShelfLifeHours_window
          [of "mk_batch ''b3'' ''rice'' 100 ''A'' (Some 50) (Some 0)" 0 50 "10 * 3600000" 25]
  note t2 = remainingShelfLifeHours_window
          [of "mk_batch ''b3'' ''rice'' 100 ''A'' (Some 50) (Some 0)" 0 50 "40 * 3600000" 25]
  note t3 = remainingShelfLifeHours_window
          [of "mk_batch ''b4'' ''rice'' 100 ''A'' None (Some 0)" 0 50 "10 * 3600000" 25]
  have 1: "remainingShelfLifeHours (mk_batch ''b3'' ''rice'' 100 ''A'' (Some 50) (Some 0))
       (10 * 3600000) 25 = Fin 30
     \<and> safeRemainingShelfLifeHours (mk_batch ''b3'' ''rice'' 100 ''A'' (Some 50) (Some 0))
       (10 * 3600000) = Fin 30"
    using t1 by (simp add: mk_batch_def elapsedHours_def tempFactor_def)
  have 2: "remainingShelfLifeHours (mk_batch ''b3'' ''rice'' 100 ''A'' (Some 50) (Some 0))
       (40 * 3600000) 25 = Fin 0"
    using t2 by (simp add: mk_batch_def elapsedHours_def tempFactor_def)
  have 3: "safeRemainingShelfLifeHours (mk_batch ''b4'' ''rice'' 100 ''A'' None (Some 0))
       (10 * 3600000) = PosInf"
    using t3 by (simp add: mk_batch_def)
  from 1 2 3 show ?thesis by simp
qed

text \<open>
  C5 as stated fails shortly before the expiry: with a shelf life of 250 hours, which are
  200 hours at 25 degrees, 28.125 seconds before their end the formula leaves 0.0078125
  hours and the code returns 0.
\<close>

theorem remainingShelfLifeHours_counterexample:
  "remainingShelfLifeHours (mk_batch ''b3'' ''rice'' 100 ''A'' (Some 250) (Some 0))
       719971875 25 = Fin 0
   \<and> max 0 (250 / tempFactor 25 - elapsedHours 0 719971875) = 1 / 128"
  by (simp add: remainingShelfLifeHours_def calculateFreshnessPct_def mk_batch_def
        elapsedHours_def tempFactor_def js_round_def)

section \<open>Properties of the rounding\<close>

lemma pow2_pos: "0 < pow2 e"
  by (simp add: pow2_def)

lemma pow2_powr: "pow2 e = 2 powr (of_int e)"
proof (cases "0 \<le> e")
  case True
  then have "2 powr (of_int e) = (2::real) powr (real (nat e))" by simp
  also have "\<dots> = 2 ^ nat e" by (simp add: powr_realpow)
  finally show ?thesis using True by (simp add: pow2_def)
next
  case False
  then have "2 powr (of_int e) = (2::real) powr (- real (nat (- e)))" by simp
  also have "\<dots> = 1 / 2 ^ nat (- e)"
    by (simp add: powr_minus powr_realpow inverse_eq_divide)
  finally show ?thesis using False by (simp add: pow2_def)
qed

lemma pow2_add: "pow2 (a + b) = pow2 a * pow2 b"
  by (simp add: pow2_powr powr_add)

lemma pow2_Suc: "pow2 (e + 1) = 2 * pow2 e" "pow2 (e - 1) = pow2 e / 2"
  by (simp_all add: pow2_powr powr_add powr_diff)

lemma pow2_mono: "a \<le> b \<Longrightarrow> pow2 a \<le> pow2 b"
  by (simp add: pow2_powr)

lemma pow2_less: "pow2 a < pow2 b \<Longrightarrow> a < b"
  by (simp add: pow2_powr)

lemma expo_bounds: "0 < x \<Longrightarrow> pow2 (expo x) \<le> x \<and> x < pow2 (expo x + 1)"
proof (induction x rule: expo.induct)
  case (1 x)
  show ?case
  proof (cases "2 \<le> x")
    case True
    then have e: "expo x = expo (x / 2) + 1"
      using "1.prems" by (subst expo.simps) simp
    from "1.IH"(1) True "1.prems"
    have ih: "pow2 (expo (x / 2)) \<le> x / 2" "x / 2 < pow2 (expo (x / 2) + 1)" by simp_all
    have "pow2 (expo (x / 2) + 1) = 2 * pow2 (expo (x / 2))"
      "pow2 (expo (x / 2) + 1 + 1) = 2 * pow2 (expo (x / 2) + 1)"
      by (rule pow2_Suc)+
    with ih have a: "pow2 (expo (x / 2) + 1) \<le> x" and b: "x < pow2 (expo (x / 2) + 1 + 1)"
      by linarith+
    then show ?thesis
      unfolding e by simp
  next
    case False
    show ?thesis
    proof (cases "x < 1")
      case True
      then have e: "expo x = expo (2 * x) - 1"
        using "1.prems" False by (subst expo.simps) simp
      from "1.IH"(2) False True "1.prems"
      have ih: "pow2 (expo (2 * x)) \<le> 2 * x" "2 * x < pow2 (expo (2 * x) + 1)" by simp_all
      have "pow2 (expo (2 * x) - 1) = pow2 (expo (2 * x)) / 2"
        "pow2 (expo (2 * x) + 1) = 2 * pow2 (expo (2 * x))"
        by (rule pow2_Suc)+
      with ih have a: "pow2 (expo (2 * x) - 1) \<le> x" and b: "x < pow2 (expo (2 * x))"
        by linarith+
      have "expo (2 * x) - 1 + 1 = expo (2 * x)" by simp
      with a b show ?thesis
        unfolding e by simp
    next
      case f: False
      then have e: "expo x = 0"
        using "1.prems" False by (subst expo.simps) simp
      show ?thesis
        unfolding e using False f by (simp add: pow2_def)
    qed
  qed
qed

lemma expo_mono:
  assumes "0 < x" "x \<le> y"
  shows "expo x \<le> expo y"
proof -
  have "pow2 (expo x) \<le> x" using expo_bounds [OF assms(1)] by simp
  also have "x \<le> y" by fact
  also have "y < pow2 (expo y + 1)" using expo_bounds [of y] assms by simp
  finally have "expo x < expo y + 1" by (rule pow2_less)
  then show ?thesis by simp
qed

lemma round_even_bounds: "\<lfloor>y\<rfloor> \<le> round_even y \<and> round_even y \<le> \<lceil>y\<rceil>"
proof -
  have "\<lfloor>y\<rfloor> + 1 \<le> \<lceil>y\<rceil>" if "y \<noteq> of_int \<lfloor>y\<rfloor>"
    using that by (metis ceiling_altdef order_refl)
  moreover have "y \<noteq> of_int \<lfloor>y\<rfloor>" if "y - of_int \<lfloor>y\<rfloor> \<ge> 1 / 2"
    using that by auto
  ultimately show ?thesis
    by (auto simp add: round_even_def Let_def floor_le_ceiling)
qed

lemma round_even_of_int: "round_even (of_int n) = n"
  by (simp add: round_even_def)

lemma round_even_error: "\<bar>of_int (round_even y) - y\<bar> \<le> 1 / 2"
  by (auto simp add: round_even_def Let_def abs_if) linarith+

lemma round_double_0: "round_double 0 = 0"
  by (simp add: round_double_def)

lemma round_double_pos:
  "0 < x \<Longrightarrow> round_double x
     = of_int (round_even (x / pow2 (expo x - 52))) * pow2 (expo x - 52)"
  by (simp add: round_double_def Let_def)

lemma round_double_nonneg: "0 \<le> x \<Longrightarrow> 0 \<le> round_double x"
proof (cases "x = 0")
  case True
  then show ?thesis by (simp add: round_double_0)
next
  case False
  assume "0 \<le> x"
  with False have x: "0 < x" by simp
  have "0 \<le> x / pow2 (expo x - 52)" using x pow2_pos [of "expo x - 52"] by simp
  then have "0 \<le> \<lfloor>x / pow2 (expo x - 52)\<rfloor>" by simp
  then have "0 \<le> round_even (x / pow2 (expo x - 52))"
    using round_even_bounds [of "x / pow2 (expo x - 52)"] by linarith
  then show ?thesis
    using pow2_pos [of "expo x - 52"] by (simp add: round_double_pos [OF x])
qed

lemma round_double_minus: "round_double (- x) = - round_double x"
  by (simp add: round_double_def Let_def)

lemma round_double_nonpos: "x \<le> 0 \<Longrightarrow> round_double x \<le> 0"
  using round_double_nonneg [of "- x"] by (simp add: round_double_minus)

lemma round_double_le:
  assumes x: "0 \<le> x" and xd: "x \<le> d" and d: "is_double d"
  shows "round_double x \<le> d"
proof (cases "x = 0")
  case True
  then show ?thesis using x xd by (simp add: round_double_0)
next
  case False
  with x have xp: "0 < x" by simp
  then have dp: "0 < d" using xd by simp
  define ex where "ex = expo x - 52"
  define ed where "ed = expo d - 52"
  define md where "md = round_even (d / pow2 ed)"
  have le: "ex \<le> ed"
    using expo_mono [OF xp xd] by (simp add: ex_def ed_def)
  have deq: "d = of_int md * pow2 ed"
    using d round_double_pos [OF dp] by (simp add: is_double_def md_def ed_def)
  have "pow2 ed = pow2 (ed - ex) * pow2 ex"
    using pow2_add [of "ed - ex" ex] by simp
  moreover have "pow2 (ed - ex) = of_int (2 ^ nat (ed - ex))"
    using le by (simp add: pow2_def)
  ultimately have dN: "d = of_int (md * 2 ^ nat (ed - ex)) * pow2 ex"
    using deq by simp
  define N where "N = md * 2 ^ nat (ed - ex)"
  have "x / pow2 ex \<le> d / pow2 ex"
    using xd pow2_pos [of ex] by (simp add: divide_right_mono)
  also have "d / pow2 ex = of_int N"
    using dN pow2_pos [of ex] by (simp add: N_def)
  finally have "\<lceil>x / pow2 ex\<rceil> \<le> N" by (simp add: ceiling_le_iff)
  then have "round_even (x / pow2 ex) \<le> N"
    using round_even_bounds [of "x / pow2 ex"] by linarith
  then have "of_int (round_even (x / pow2 ex)) * pow2 ex \<le> of_int N * pow2 ex"
    using pow2_pos [of ex] by (simp add: mult_right_mono)
  then show ?thesis
    using round_double_pos [OF xp] dN by (simp add: ex_def [symmetric] N_def)
qed

lemma round_double_error: "\<bar>round_double x - x\<bar> \<le> \<bar>x\<bar> / 2 ^ 53"
proof (cases "x = 0")
  case True
  then show ?thesis by (simp add: round_double_0)
next
  case False
  define e where "e = expo \<bar>x\<bar> - 52"
  define y where "y = \<bar>x\<bar> / pow2 e"
  have ax: "0 < \<bar>x\<bar>" using False by simp
  have p: "0 < pow2 e" by (rule pow2_pos)
  have "pow2 (expo \<bar>x\<bar>) = pow2 52 * pow2 e"
    using pow2_add [of 52 e] by (simp add: e_def)
  then have "2 ^ 52 * pow2 e \<le> \<bar>x\<bar>"
    using expo_bounds [OF ax] by (simp add: pow2_def)
  then have half: "pow2 e / 2 \<le> \<bar>x\<bar> / 2 ^ 53" by simp
  have r: "round_double x = sgn x * of_int (round_even y) * pow2 e"
    using False by (simp add: round_double_def Let_def e_def y_def)
  have xe: "x = sgn x * y * pow2 e"
    using p by (simp add: y_def sgn_mult_abs)
  have "round_double x - x = sgn x * (of_int (round_even y) - y) * pow2 e"
    unfolding r by (subst (2) xe) (simp add: algebra_simps)
  then have "\<bar>round_double x - x\<bar> = \<bar>of_int (round_even y) - y\<bar> * pow2 e"
    using p False by (simp add: abs_mult abs_sgn_eq)
  also have "\<dots> \<le> 1 / 2 * pow2 e"
    using round_even_error [of y] p by (intro mult_right_mono) simp_all
  also have "\<dots> \<le> \<bar>x\<bar> / 2 ^ 53" using half by simp
  finally show ?thesis .
qed

lemma whole_is_double:
  assumes "whole x" and "0 \<le> x"
  shows "is_double x"
proof (cases "x = 0")
  case True
  then show ?thesis by (simp add: is_double_def round_double_0)
next
  case False
  with assms have xp: "0 < x" by simp
  obtain n where n: "x = of_int n" using assms(1) by (metis whole_def)
  have n1: "1 \<le> n" using xp n by simp
  have x53: "x \<le> 2 ^ 53" using assms by (simp add: whole_def)
  define e where "e = expo x - 52"
  have "pow2 (expo x) \<le> pow2 53"
    using expo_bounds [OF xp] x53 by (simp add: pow2_def)
  have e53: "expo x \<le> 53"
  proof -
    have "pow2 (expo x) \<le> x" using expo_bounds [OF xp] by simp
    also have "x < pow2 54" using x53 by (simp add: pow2_def)
    finally have "expo x < 54" by (rule pow2_less)
    then show ?thesis by simp
  qed
  have int: "\<exists>k. x / pow2 e = of_int k"
  proof (cases "e \<le> 0")
    case True
    then have "x / pow2 e = of_int (n * 2 ^ nat (- e))"
      by (cases "e = 0") (simp_all add: pow2_def n)
    then show ?thesis by blast
  next
    case False
    with e53 have e1: "e = 1" by (simp add: e_def)
    then have "expo x = 53" by (simp add: e_def)
    then have "2 ^ 53 \<le> x" using expo_bounds [OF xp] by (simp add: pow2_def)
    with x53 have "x = 2 ^ 53" by simp
    then have "x / pow2 e = of_int (2 ^ 52)" by (simp add: e1 pow2_def)
    then show ?thesis by blast
  qed
  then obtain k where k: "x / pow2 e = of_int k" by blast
  have "round_double x = of_int k * pow2 e"
    using round_double_pos [OF xp] by (simp add: e_def [symmetric] k round_even_of_int)
  also have "\<dots> = x" using k pow2_pos [of e] by (simp add: field_simps)
  finally show ?thesis by (simp add: is_double_def)
qed

lemma js_sub_whole:
  assumes "whole a" "whole b" "0 \<le> b" "b \<le> a"
  shows "js_sub a b = a - b \<and> whole (a - b)"
proof -
  obtain n m where nm: "a = of_int n" "b = of_int m"
    using assms(1,2) by (metis whole_def)
  have "a - b = of_int (n - m)" by (simp add: nm)
  then have "of_int \<lfloor>a - b\<rfloor> = a - b" by (metis floor_of_int)
  moreover have "\<bar>a - b\<bar> \<le> 2 ^ 53" using assms by (simp add: whole_def)
  ultimately have w: "whole (a - b)" by (simp only: whole_def simp_thms)
  from whole_is_double [OF w] assms(4) show ?thesis
    by (simp add: js_sub_def is_double_def w)
qed

lemma js_sub_nonneg: "b \<le> a \<Longrightarrow> 0 \<le> js_sub a b"
  by (simp add: js_sub_def round_double_nonneg)

lemma js_sub_le: "0 \<le> b \<Longrightarrow> b \<le> a \<Longrightarrow> is_double a \<Longrightarrow> js_sub a b \<le> a"
  unfolding js_sub_def by (rule round_double_le) simp_all

section \<open>Batch splits conserve mass\<close>


lemma set_js_insert: "set (js_insert cmp x xs) = insert x (set xs)"
  by (induction xs) auto

lemma set_js_sort: "set (js_sort cmp xs) = set xs"
  by (induction xs) (auto simp add: set_js_insert)

lemma mset_js_insert: "mset (js_insert cmp x xs) = add_mset x (mset xs)"
  by (induction xs) auto

lemma mset_js_sort: "mset (js_sort cmp xs) = mset xs"
  by (induction xs) (auto simp add: mset_js_insert)

lemma sum_list_map_update:
  "i < length xs \<Longrightarrow>
   sum_list (map f (xs[i := y])) = sum_list (map f xs) - f (xs ! i) + (f y :: real)"
proof (induction xs arbitrary: i)
  case Nil
  then show ?case by simp
next
  case (Cons x xs)
  then show ?case by (cases i) auto
qed

lemma pick_loop_indices: "(i, k) \<in> set (pick_loop cs r) \<Longrightarrow> i \<in> fst ` set cs"
proof (induction cs arbitrary: r)
  case Nil
  then show ?case by simp
next
  case (Cons c cs)
  obtain j b where c: "c = (j, b)" by (cases c)
  from Cons.prems Cons.IH show ?case
    by (auto simp add: c Let_def split: if_splits)
qed

lemma transfer_candidates_indices:
  "(i, b) \<in> set (transfer_candidates d w src) \<Longrightarrow> i < length w"
  by (auto simp add: transfer_candidates_def set_js_sort dest: set_zip_leftD)

lemma takeFromSource_indices:
  "(i, k) \<in> set (takeFromSource d w src q) \<Longrightarrow> i < length w"
proof -
  assume "(i, k) \<in> set (takeFromSource d w src q)"
  then have "(i, k) \<in> set (pick_loop (transfer_candidates d w src) q)"
    by (auto simp add: takeFromSource_def split: if_splits)
  then have "i \<in> fst ` set (transfer_candidates d w src)"
    by (rule pick_loop_indices)
  then show ?thesis using transfer_candidates_indices by auto
qed

text \<open>
  With whole numbers of kilograms the subtractions of both loops are exact, and the
  loops keep the total quantity of the inventory.
\<close>

lemma split_guard_less:
  assumes k: "0 < k" and g: "k < js_sub available (round_double (1 / 10 ^ 9))"
    and d: "is_double available"
  shows "k < available"
proof -
  define eps :: real where "eps = round_double (1 / 10 ^ 9)"
  have eps: "0 \<le> eps" unfolding eps_def by (rule round_double_nonneg) simp
  have pos: "0 \<le> available - eps"
  proof (rule ccontr)
    assume "\<not> 0 \<le> available - eps"
    then have "round_double (available - eps) \<le> 0" by (intro round_double_nonpos) simp
    with k g show False by (simp add: js_sub_def eps_def)
  qed
  have "round_double (available - eps) \<le> available"
    using pos _ d by (rule round_double_le) (use eps in simp)
  with g show ?thesis by (simp add: js_sub_def eps_def)
qed

lemma pick_loop_whole:
  assumes "whole r" and "\<forall>(i, b) \<in> set cs. whole (quantity_kg b)"
  shows "\<forall>(i, k) \<in> set (pick_loop cs r). whole k \<and> 0 < k"
  using assms
proof (induction cs arbitrary: r)
  case Nil
  then show ?case by simp
next
  case (Cons c cs)
  obtain j b where c: "c = (j, b)" by (cases c)
  have wb: "whole (quantity_kg b)" and rest: "\<forall>(i, b) \<in> set cs. whole (quantity_kg b)"
    using Cons.prems(2) by (simp_all add: c)
  show ?case
  proof (cases "r \<le> 0 \<or> quantity_kg b \<le> 0")
    case True
    then show ?thesis
      using Cons.IH [OF Cons.prems(1) rest] by (auto simp add: c Let_def)
  next
    case False
    define k where "k = min (quantity_kg b) r"
    have k: "whole k" "0 < k" "k \<le> r"
      using False wb Cons.prems(1) by (simp_all add: k_def min_def)
    from js_sub_whole [OF Cons.prems(1) k(1) _ k(3)] k(2) have
      "js_sub r k = r - k" "whole (r - k)" by simp_all
    then have "whole (js_sub r k)" by simp
    from Cons.IH [OF this rest] False k show ?thesis
      by (simp add: c Let_def k_def [symmetric])
  qed
qed

lemma transfer_candidates_whole:
  assumes "\<forall>b\<in>set w. whole (quantity_kg b)"
  shows "\<forall>(i, b) \<in> set (transfer_candidates d w src). whole (quantity_kg b)"
  using assms
  by (auto simp add: transfer_candidates_def set_js_sort dest!: set_zip_rightD)

lemma takeFromSource_whole:
  assumes "whole q" and "\<forall>b\<in>set w. whole (quantity_kg b)"
  shows "\<forall>(i, k) \<in> set (takeFromSource d w src q). i < length w \<and> whole k \<and> 0 < k"
proof -
  have "\<forall>(i, k) \<in> set (pick_loop (transfer_candidates d w src) q). whole k \<and> 0 < k"
    using assms(1) transfer_candidates_whole [OF assms(2)] by (rule pick_loop_whole)
  then show ?thesis
    using takeFromSource_indices [of _ _ d w src q]
    by (auto simp add: takeFromSource_def)
qed

lemma apply_picked_sum:
  assumes "\<forall>(i, k) \<in> set ps. i < length w \<and> whole k \<and> 0 < k"
    and "\<forall>b\<in>set w. whole (quantity_kg b) \<and> 0 \<le> quantity_kg b"
  shows "sum_list (map quantity_kg (fst (apply_picked t ps (w, n)))) = sum_list (map quantity_kg w)
         \<and> (\<forall>b\<in>set (fst (apply_picked t ps (w, n))). whole (quantity_kg b) \<and> 0 \<le> quantity_kg b)"
  using assms
proof (induction ps arbitrary: w n)
  case Nil
  then show ?case by simp
next
  case (Cons a ps)
  obtain i k where a: "a = (i, k)" by (cases a)
  have i: "i < length w" and k: "whole k" "0 < k" using Cons.prems(1) a by simp_all
  have rest: "\<forall>(j, k') \<in> set ps. j < length w' \<and> whole k' \<and> 0 < k'"
    if "length w \<le> length w'" for w'
    using Cons.prems(1) that by fastforce
  define av where "av = quantity_kg (w ! i)"
  have av: "whole av" "0 \<le> av"
    using Cons.prems(2) i by (simp_all add: av_def)
  show ?case
  proof (cases "av \<le> 0")
    case True
    then have "apply_picked t (a # ps) (w, n) = apply_picked t ps (w, n)"
      by (simp add: a Let_def av_def)
    with Cons.IH [OF rest [of w] Cons.prems(2)] show ?thesis by simp
  next
    case pos: False
    show ?thesis
    proof (cases "js_sub av (round_double (1 / 10 ^ 9)) \<le> k")
      case True
      define w1 where "w1 = w[i := (w ! i)\<lparr>currentNode := t\<rparr>]"
      have e: "apply_picked t (a # ps) (w, n) = apply_picked t ps (w1, n)"
        using True pos k by (simp add: a Let_def av_def w1_def)
      have s1: "sum_list (map quantity_kg w1) = sum_list (map quantity_kg w)"
        using i by (simp add: w1_def sum_list_map_update)
      have q1: "\<forall>b\<in>set w1. whole (quantity_kg b) \<and> 0 \<le> quantity_kg b"
      proof
        fix b assume "b \<in> set w1"
        then have "b \<in> set w \<or> b = (w ! i)\<lparr>currentNode := t\<rparr>"
          by (auto simp add: w1_def dest: set_update_subset_insert [THEN subsetD])
        then show "whole (quantity_kg b) \<and> 0 \<le> quantity_kg b"
          using Cons.prems(2) i by auto
      qed
      from Cons.IH [OF rest [of w1] q1, of n] s1 show ?thesis
        unfolding e by (simp add: w1_def)
    next
      case False
      then have lt: "k < av"
        using split_guard_less [OF k(2) _ whole_is_double [OF av]] by simp
      obtain p c where pc: "split_for_transfer (w ! i) k t (n + 1) = (p, c)"
        by (cases "split_for_transfer (w ! i) k t (n + 1)")
      from js_sub_whole [OF av(1) k(1)] k(2) lt have
        s: "js_sub av k = av - k" and ws: "whole (av - k)" by simp_all
      have qp: "quantity_kg p = av - k" and qc: "quantity_kg c = k"
        using pc s by (auto simp add: split_for_transfer_def Let_def av_def)
      define w1 where "w1 = w[i := p] @ [c]"
      have e: "apply_picked t (a # ps) (w, n) = apply_picked t ps (w1, n + 1)"
        using False pos k pc by (simp add: a Let_def av_def w1_def)
      have s1: "sum_list (map quantity_kg w1) = sum_list (map quantity_kg w)"
        using i by (simp add: w1_def sum_list_map_update qp qc av_def)
      have q1: "\<forall>b\<in>set w1. whole (quantity_kg b) \<and> 0 \<le> quantity_kg b"
      proof
        fix b assume "b \<in> set w1"
        then have "b \<in> set w \<or> b = p \<or> b = c"
          by (auto simp add: w1_def dest: set_update_subset_insert [THEN subsetD])
        then show "whole (quantity_kg b) \<and> 0 \<le> quantity_kg b"
          using Cons.prems(2) qp qc ws k lt by auto
      qed
      from Cons.IH [OF rest [of w1] q1, of "n + 1"] s1 show ?thesis
        unfolding e by (simp add: w1_def)
    qed
  qed
qed

lemma apply_suggestion_sum:
  assumes "\<forall>q. sg_quantity sg = Fin q \<longrightarrow> whole q"
    and "\<forall>b\<in>set (ts_working st). whole (quantity_kg b) \<and> 0 \<le> quantity_kg b"
  shows "sum_list (map quantity_kg (ts_working (apply_suggestion d sg st)))
           = sum_list (map quantity_kg (ts_working st))
         \<and> (\<forall>b\<in>set (ts_working (apply_suggestion d sg st)).
               whole (quantity_kg b) \<and> 0 \<le> quantity_kg b)"
proof -
  have ap: "sum_list (map quantity_kg (fst (apply_picked t
              (takeFromSource d (ts_working st) src q) (ts_working st, ts_splitSeq st))))
            = sum_list (map quantity_kg (ts_working st))
          \<and> (\<forall>b\<in>set (fst (apply_picked t
              (takeFromSource d (ts_working st) src q) (ts_working st, ts_splitSeq st))).
               whole (quantity_kg b) \<and> 0 \<le> quantity_kg b)"
    if "whole q" for t src q
    by (rule apply_picked_sum [OF takeFromSource_whole [OF that] assms(2)])
       (use assms(2) in simp)
  show ?thesis
  proof (cases "sg_quantity sg")
    case (Fin q)
    with assms(1) have w: "whole q" by simp
    show ?thesis
      using ap [OF w] assms(2) Fin
      by (auto simp add: apply_suggestion_def Let_def split: option.splits prod.splits)
         (metis fst_conv)+
  next
    case PosInf
    then show ?thesis using assms(2) by (simp add: apply_suggestion_def split: option.splits)
  next
    case NaN
    then show ?thesis using assms(2) by (simp add: apply_suggestion_def split: option.splits)
  qed
qed

lemma fold_apply_suggestion_sum:
  assumes "\<forall>sg\<in>set sgs. \<forall>q. sg_quantity sg = Fin q \<longrightarrow> whole q"
    and "\<forall>b\<in>set (ts_working st). whole (quantity_kg b) \<and> 0 \<le> quantity_kg b"
  shows "sum_list (map quantity_kg (ts_working (fold (apply_suggestion d) sgs st)))
           = sum_list (map quantity_kg (ts_working st))"
  using assms
proof (induction sgs arbitrary: st)
  case Nil
  then show ?case by simp
next
  case (Cons sg sgs)
  have 1: "\<forall>q. sg_quantity sg = Fin q \<longrightarrow> whole q" using Cons.prems(1) by simp
  note s = apply_suggestion_sum [OF 1 Cons.prems(2), of d]
  have "sum_list (map quantity_kg (ts_working (fold (apply_suggestion d) sgs
           (apply_suggestion d sg st))))
        = sum_list (map quantity_kg (ts_working (apply_suggestion d sg st)))"
    using Cons.prems(1) s [THEN conjunct2] by (intro Cons.IH) simp_all
  with s [THEN conjunct1] show ?case by simp
qed

lemma applyWarehouseTransfers_sum:
  assumes "\<forall>sg\<in>set sgs. \<forall>q. sg_quantity sg = Fin q \<longrightarrow> whole q"
    and "\<forall>b\<in>set bs. whole (quantity_kg b) \<and> 0 \<le> quantity_kg b"
  shows "sum_list (map quantity_kg (fst (applyWarehouseTransfersToBatches bs (Some sgs) d)))
         = sum_list (map quantity_kg bs)"
  using fold_apply_suggestion_sum
          [OF assms(1), of "\<lparr> ts_working = bs, ts_splitSeq = 0, ts_applied = [] \<rparr>" d] assms(2)
  by (simp add: applyWarehouseTransfersToBatches_def Let_def)

lemma shipment_loop_zero: "shipment_loop now cid bs 0 = ([], bs, [], 0)"
  by (cases bs) simp_all

lemma shipment_loop_sum:
  assumes "whole q" and "\<forall>b\<in>set bs. whole (quantity_kg b) \<and> 0 \<le> quantity_kg b"
    and "shipment_loop now cid bs q = (as, bs', cs, r)"
  shows "sum_list (map quantity_kg bs') + sum_list (map quantity_kg cs)
         = sum_list (map quantity_kg bs)"
  using assms
proof (induction bs arbitrary: q as bs' cs r)
  case Nil
  then show ?case by simp
next
  case (Cons b bs)
  have wb: "whole (quantity_kg b)" "0 \<le> quantity_kg b"
    and rest: "\<forall>b\<in>set bs. whole (quantity_kg b) \<and> 0 \<le> quantity_kg b"
    using Cons.prems(2) by simp_all
  show ?case
  proof (cases "q \<le> 0")
    case True
    with Cons.prems(3) show ?thesis by auto
  next
    case False
    show ?thesis
    proof (cases "q \<le> quantity_kg b")
      case True
      from js_sub_whole [OF wb(1) Cons.prems(1) _ True] False
      have "js_sub (quantity_kg b) q = quantity_kg b - q" by simp
      with True False Cons.prems(3) show ?thesis
        by (auto simp add: shipment_loop_zero split_for_shipment_def Let_def split: if_splits)
    next
      case nle: False
      from js_sub_whole [OF Cons.prems(1) wb] nle
      have w: "whole (js_sub q (quantity_kg b))" by simp
      obtain as1 bs1 cs1 r1 where
        rec: "shipment_loop now cid bs (js_sub q (quantity_kg b)) = (as1, bs1, cs1, r1)"
        by (cases "shipment_loop now cid bs (js_sub q (quantity_kg b))") auto
      from Cons.IH [OF w rest rec] False nle Cons.prems(3) rec show ?thesis by auto
    qed
  qed
qed

text \<open>
  C2 (amended).  A split, during the application of a transfer or the creation of a
  shipment, of a batch of quantity \<open>Q\<close> of which \<open>k\<close> is taken gives the child \<open>k\<close> and
  leaves the parent with \<open>Q - k\<close> as floating point computes it: both add up to \<open>Q\<close> when
  \<open>Q - k\<close> is a double, as it is for whole numbers of kilograms, and otherwise up to the
  rounding of one subtraction, at most \<open>(Q - k) / 2 ^ 53\<close>.  The child has the food type,
  the manufacture date, the shelf life and the initial temperature of the parent.  The
  split is what both loops do when less than the batch is taken, and with whole numbers
  both operations keep the total quantity of the inventory.
\<close>

theorem batch_split_mass_conservation:
  "(case split_for_transfer b k targetId n of
      (parent, child) \<Rightarrow>
        quantity_kg parent = js_sub (quantity_kg b) k \<and> quantity_kg child = k
        \<and> \<bar>quantity_kg parent + quantity_kg child - quantity_kg b\<bar>
            \<le> \<bar>quantity_kg b - k\<bar> / 2 ^ 53
        \<and> (is_double (quantity_kg b - k) \<longrightarrow>
              quantity_kg parent + quantity_kg child = quantity_kg b)
        \<and> foodType child = foodType b \<and> manufacture_date child = manufacture_date b
        \<and> shelf_life_hours child = shelf_life_hours b
        \<and> initial_temp_c child = initial_temp_c b)
   \<and> (case split_for_shipment now childId b k of
      (parent, child) \<Rightarrow>
        quantity_kg parent = js_sub (quantity_kg b) k \<and> quantity_kg child = k
        \<and> \<bar>quantity_kg parent + quantity_kg child - quantity_kg b\<bar>
            \<le> \<bar>quantity_kg b - k\<bar> / 2 ^ 53
        \<and> (is_double (quantity_kg b - k) \<longrightarrow>
              quantity_kg parent + quantity_kg child = quantity_kg b)
        \<and> foodType child = foodType b \<and> manufacture_date child = manufacture_date b
        \<and> shelf_life_hours child = shelf_life_hours b
        \<and> initial_temp_c child = initial_temp_c b)
   \<and> (whole (quantity_kg b) \<and> whole k \<and> 0 \<le> k \<and> k \<le> quantity_kg b \<longrightarrow>
        is_double (quantity_kg b - k))
   \<and> (0 < k \<and> k < js_sub (quantity_kg (working ! i)) (round_double (1 / 10 ^ 9)) \<longrightarrow>
        apply_picked targetId [(i, k)] (working, n) =
          (working[i := fst (split_for_transfer (working ! i) k targetId (n + 1))]
             @ [snd (split_for_transfer (working ! i) k targetId (n + 1))], n + 1))
   \<and> (0 < k \<and> k < quantity_kg b \<longrightarrow>
        shipment_loop now childId (b # bs) k =
          ([\<lparr> ab_batchId = childId, ab_quantity = k, isSplit = True,
               ab_parentBatchId = Some (bid b) \<rparr>],
           fst (split_for_shipment now childId b k) # bs,
           [snd (split_for_shipment now childId b k)], 0))
   \<and> ((\<forall>b\<in>set batches. whole (quantity_kg b) \<and> 0 \<le> quantity_kg b)
        \<and> (\<forall>sg\<in>set suggestions. \<forall>q. sg_quantity sg = Fin q \<longrightarrow> whole q) \<longrightarrow>
        sum_list (map quantity_kg
          (fst (applyWarehouseTransfersToBatches batches (Some suggestions) currentDate)))
        = sum_list (map quantity_kg batches))
   \<and> (whole q \<and> (\<forall>b\<in>set bs. whole (quantity_kg b) \<and> 0 \<le> quantity_kg b) \<longrightarrow>
        (case shipment_loop now childId bs q of
           (as, bs', cs, r) \<Rightarrow>
             sum_list (map quantity_kg bs') + sum_list (map quantity_kg cs)
               = sum_list (map quantity_kg bs)))"
proof -
  have err: "\<bar>js_sub (quantity_kg b) k + k - quantity_kg b\<bar> \<le> \<bar>quantity_kg b - k\<bar> / 2 ^ 53"
    using round_double_error [of "quantity_kg b - k"]
    by (simp add: js_sub_def algebra_simps)
  have ex: "js_sub (quantity_kg b) k + k = quantity_kg b" if "is_double (quantity_kg b - k)"
    using that by (simp add: js_sub_def is_double_def)
  have 1: "case split_for_transfer b k targetId n of
      (parent, child) \<Rightarrow>
        quantity_kg parent = js_sub (quantity_kg b) k \<and> quantity_kg child = k
        \<and> \<bar>quantity_kg parent + quantity_kg child - quantity_kg b\<bar>
            \<le> \<bar>quantity_kg b - k\<bar> / 2 ^ 53
        \<and> (is_double (quantity_kg b - k) \<longrightarrow>
              quantity_kg parent + quantity_kg child = quantity_kg b)
        \<and> foodType child = foodType b \<and> manufacture_date child = manufacture_date b
        \<and> shelf_life_hours child = shelf_life_hours b
        \<and> initial_temp_c child = initial_temp_c b"
    using err ex by (simp add: split_for_transfer_def Let_def)
  have 2: "case split_for_shipment now childId b k of
      (parent, child) \<Rightarrow>
        quantity_kg parent = js_sub (quantity_kg b) k \<and> quantity_kg child = k
        \<and> \<bar>quantity_kg parent + quantity_kg child - quantity_kg b\<bar>
            \<le> \<bar>quantity_kg b - k\<bar> / 2 ^ 53
        \<and> (is_double (quantity_kg b - k) \<longrightarrow>
              quantity_kg parent + quantity_kg child = quantity_kg b)
        \<and> foodType child = foodType b \<and> manufacture_date child = manufacture_date b
        \<and> shelf_life_hours child = shelf_life_hours b
        \<and> initial_temp_c child = initial_temp_c b"
    using err ex by (simp add: split_for_shipment_def Let_def)
  have w: "is_double (quantity_kg b - k)"
    if "whole (quantity_kg b) \<and> whole k \<and> 0 \<le> k \<and> k \<le> quantity_kg b"
  proof -
    from that js_sub_whole [of "quantity_kg b" k] have "whole (quantity_kg b - k)" by simp
    then show ?thesis using that by (intro whole_is_double) simp_all
  qed
  have 3: "apply_picked targetId [(i, k)] (working, n) =
          (working[i := fst (split_for_transfer (working ! i) k targetId (n + 1))]
             @ [snd (split_for_transfer (working ! i) k targetId (n + 1))], n + 1)"
    if h: "0 < k \<and> k < js_sub (quantity_kg (working ! i)) (round_double (1 / 10 ^ 9))"
  proof -
    have "0 < quantity_kg (working ! i)"
    proof (rule ccontr)
      assume "\<not> 0 < quantity_kg (working ! i)"
      moreover have "0 \<le> round_double (1 / 10 ^ 9)" by (rule round_double_nonneg) simp
      ultimately have "round_double (quantity_kg (working ! i) - round_double (1 / 10 ^ 9)) \<le> 0"
        by (intro round_double_nonpos) simp
      with h show False by (simp add: js_sub_def)
    qed
    with h show ?thesis by (auto simp add: Let_def split: prod.splits)
  qed
  have 4: "shipment_loop now childId (b # bs) k =
          ([\<lparr> ab_batchId = childId, ab_quantity = k, isSplit = True,
               ab_parentBatchId = Some (bid b) \<rparr>],
           fst (split_for_shipment now childId b k) # bs,
           [snd (split_for_shipment now childId b k)], 0)"
    if "0 < k \<and> k < quantity_kg b"
    using that by (auto simp add: shipment_loop_zero split_for_shipment_def Let_def)
  have 5: "sum_list (map quantity_kg
          (fst (applyWarehouseTransfersToBatches batches (Some suggestions) currentDate)))
        = sum_list (map quantity_kg batches)"
    if "(\<forall>b\<in>set batches. whole (quantity_kg b) \<and> 0 \<le> quantity_kg b)
        \<and> (\<forall>sg\<in>set suggestions. \<forall>q. sg_quantity sg = Fin q \<longrightarrow> whole q)"
    using that by (intro applyWarehouseTransfers_sum) simp_all
  have 6: "case shipment_loop now childId bs q of
      (as, bs', cs, r) \<Rightarrow>
        sum_list (map quantity_kg bs') + sum_list (map quantity_kg cs)
          = sum_list (map quantity_kg bs)"
    if "whole q \<and> (\<forall>b\<in>set bs. whole (quantity_kg b) \<and> 0 \<le> quantity_kg b)"
    using that shipment_loop_sum [of q bs now childId]
    by (auto split: prod.splits)
  show ?thesis
    by (intro conjI impI 1 2; (erule w 3 4 5 6)?)
qed

text \<open>
  The fourth scenario: of a batch of 100 kg a transfer, or a shipment, of 30 kg leaves
  70 kg in the parent and gives the child 30 kg, with the food type and the manufacture
  date of the parent.
\<close>

theorem batch_split_mass_conservation_witness:
  "apply_picked ''B'' [(0, 30)] ([mk_batch ''p'' ''rice'' 100 ''A'' (Some 48) (Some 0)], 0)
     = ([(mk_batch ''p'' ''rice'' 100 ''A'' (Some 48) (Some 0))\<lparr>quantity_kg := 70\<rparr>,
         (mk_batch ''p'' ''rice'' 100 ''A'' (Some 48) (Some 0))
           \<lparr>bid := ''p-xfer-1'', currentNode := ''B'', quantity_kg := 30\<rparr>], 1)
   \<and> shipment_loop 5 ''c'' [mk_batch ''p'' ''rice'' 100 ''A'' (Some 48) (Some 0)] 30
     = ([\<lparr> ab_batchId = ''c'', ab_quantity = 30, isSplit = True,
           ab_parentBatchId = Some ''p'' \<rparr>],
        [fst (split_for_shipment 5 ''c''
                (mk_batch ''p'' ''rice'' 100 ''A'' (Some 48) (Some 0)) 30)],
        [snd (split_for_shipment 5 ''c''
                (mk_batch ''p'' ''rice'' 100 ''A'' (Some 48) (Some 0)) 30)], 0)
   \<and> quantity_kg (fst (split_for_shipment 5 ''c''
        (mk_batch ''p'' ''rice'' 100 ''A'' (Some 48) (Some 0)) 30)) = 70
   \<and> quantity_kg (snd (split_for_shipment 5 ''c''
        (mk_batch ''p'' ''rice'' 100 ''A'' (Some 48) (Some 0)) 30)) = 30
   \<and> map quantity_kg (fst (applyWarehouseTransfersToBatches
       [mk_batch ''p'' ''rice'' 100 ''A'' (Some 48) (Some 0)] (Some [example_suggestion]) 0))
     = [70, 30]
   \<and> map foodType (fst (applyWarehouseTransfersToBatches
       [mk_batch ''p'' ''rice'' 100 ''A'' (Some 48) (Some 0)] (Some [example_suggestion]) 0))
     = [''rice'', ''rice'']
   \<and> map manufacture_date (fst (applyWarehouseTransfersToBatches
       [mk_batch ''p'' ''rice'' 100 ''A'' (Some 48) (Some 0)] (Some [example_suggestion]) 0))
     = [Some 0, Some 0]
   \<and> sum_list (map quantity_kg (fst (applyWarehouseTransfersToBatches
       [mk_batch ''p'' ''rice'' 100 ''A'' (Some 48) (Some 0)] (Some [example_suggestion]) 0)))
     = 100
   \<and> is_double (100 - 30)
   \<and> quantity_kg (fst (split_for_transfer
         (mk_batch ''p'' ''rice'' 100 ''A'' (Some 48) (Some 0)) 30 ''B'' 0))
       + quantity_kg (snd (split_for_transfer
           (mk_batch ''p'' ''rice'' 100 ''A'' (Some 48) (Some 0)) 30 ''B'' 0)) = 100
   \<and> (case shipment_loop 5 ''c'' [mk_batch ''p'' ''rice'' 100 ''A'' (Some 48) (Some 0)] 30 of
        (as, bs', cs, r) \<Rightarrow>
          sum_list (map quantity_kg bs') + sum_list (map quantity_kg cs) = 100)"
proof -
  let ?p = "mk_batch ''p'' ''rice'' 100 ''A'' (Some 48) (Some 0)"
  have a: "applyWarehouseTransfersToBatches [?p] (Some [example_suggestion]) 0
     = ([?p\<lparr>quantity_kg := 70\<rparr>,
         ?p\<lparr>bid := ''p-xfer-1'', currentNode := ''B'', quantity_kg := 30\<rparr>],
        [\<lparr> at_type = ''warehouse_to_warehouse'', sourceWarehouseId = ''A'',
            targetWarehouseId = ''B'', suggested_quantity_kg = 30, applied_quantity_kg = 30,
            at_distance_km = None \<rparr>])"
    by code_simp
  have g: "(0::real) < 30 \<and> 30 < js_sub (quantity_kg ([?p] ! 0)) (round_double (1 / 10 ^ 9))"
    by code_simp
  have c: "(0::real) < 30 \<and> (30::real) < quantity_kg ?p"
    by (simp add: mk_batch_def)
  have s: "string_of_nat (Suc 0) = ''1''"
    by code_simp
  have j: "js_sub 100 30 = 70" by code_simp
  have wb: "(\<forall>b\<in>set [?p]. whole (quantity_kg b) \<and> 0 \<le> quantity_kg b)
            \<and> (\<forall>sg\<in>set [example_suggestion]. \<forall>q. sg_quantity sg = Fin q \<longrightarrow> whole q)"
    by (simp add: mk_batch_def example_suggestion_def whole_def)
  note t = batch_split_mass_conservation
            [where b = ?p and k = 30 and targetId = "''B''" and n = 0 and now = 5
               and childId = "''c''" and working = "[?p]" and i = 0 and bs = "[]"
               and batches = "[?p]" and suggestions = "[example_suggestion]"
               and currentDate = 0 and q = 0]
  note t1 = t [THEN conjunct1]
  note t2 = t [THEN conjunct2, THEN conjunct1]
  note t4 = t [THEN conjunct2, THEN conjunct2, THEN conjunct2, THEN conjunct1, THEN mp, OF g]
  note t5 = t [THEN conjunct2, THEN conjunct2, THEN conjunct2, THEN conjunct2, THEN conjunct1,
               THEN mp, OF c]
  note t6 = t [THEN conjunct2, THEN conjunct2, THEN conjunct2, THEN conjunct2, THEN conjunct2,
               THEN conjunct1, THEN mp, OF wb]
  have 1: "apply_picked ''B'' [(0, 30)] ([?p], 0)
     = ([?p\<lparr>quantity_kg := 70\<rparr>,
         ?p\<lparr>bid := ''p-xfer-1'', currentNode := ''B'', quantity_kg := 30\<rparr>], 1)"
    using t4 by (simp add: split_for_transfer_def Let_def mk_batch_def s j)
  have 2: "quantity_kg (fst (split_for_shipment 5 ''c'' ?p 30)) = 70
           \<and> quantity_kg (snd (split_for_shipment 5 ''c'' ?p 30)) = 30"
    using t2 by (simp add: split_beta mk_batch_def j)
  have 3: "shipment_loop 5 ''c'' [?p] 30
     = ([\<lparr> ab_batchId = ''c'', ab_quantity = 30, isSplit = True,
           ab_parentBatchId = Some ''p'' \<rparr>],
        [fst (split_for_shipment 5 ''c'' ?p 30)],
        [snd (split_for_shipment 5 ''c'' ?p 30)], 0)"
    using t5 by (simp add: mk_batch_def)
  have 4: "sum_list (map quantity_kg (fst (applyWarehouseTransfersToBatches [?p]
             (Some [example_suggestion]) 0))) = 100"
    using t6 by (simp add: mk_batch_def)
  have 5: "map quantity_kg (fst (applyWarehouseTransfersToBatches [?p]
             (Some [example_suggestion]) 0)) = [70, 30]"
    "map foodType (fst (applyWarehouseTransfersToBatches [?p]
             (Some [example_suggestion]) 0)) = [''rice'', ''rice'']"
    "map manufacture_date (fst (applyWarehouseTransfersToBatches [?p]
             (Some [example_suggestion]) 0)) = [Some 0, Some 0]"
    unfolding a by (simp_all add: mk_batch_def)
  have wq: "whole (quantity_kg ?p) \<and> whole 30 \<and> (0::real) \<le> 30 \<and> 30 \<le> quantity_kg ?p"
    by (simp add: mk_batch_def whole_def)
  note t3 = t [THEN conjunct2, THEN conjunct2, THEN conjunct1, THEN mp, OF wq]
  have 6: "is_double (100 - 30)"
    using t3 by (simp add: mk_batch_def)
  have 7: "quantity_kg (fst (split_for_transfer ?p 30 ''B'' 0))
           + quantity_kg (snd (split_for_transfer ?p 30 ''B'' 0)) = 100"
    using t1 6 by (simp add: split_beta mk_batch_def)
  have ws: "whole 30 \<and> (\<forall>b\<in>set [?p]. whole (quantity_kg b) \<and> 0 \<le> quantity_kg b)"
    by (simp add: mk_batch_def whole_def)
  note t7 = batch_split_mass_conservation
            [where b = ?p and k = 30 and targetId = "''B''" and n = 0 and now = 5
               and childId = "''c''" and working = "[?p]" and i = 0 and bs = "[?p]"
               and batches = "[?p]" and suggestions = "[example_suggestion]"
               and currentDate = 0 and q = 30,
             THEN conjunct2, THEN conjunct2, THEN conjunct2, THEN conjunct2, THEN conjunct2,
             THEN conjunct2, THEN mp, OF ws]
  have 8: "case shipment_loop 5 ''c'' [?p] 30 of
        (as, bs', cs, r) \<Rightarrow>
          sum_list (map quantity_kg bs') + sum_list (map quantity_kg cs) = 100"
    using t7 by (simp add: mk_batch_def)
  show ?thesis
    by (intro conjI 1 3 2 [THEN conjunct1] 2 [THEN conjunct2] 5 4 6 7 8)
qed

text \<open>
  C2 as stated fails for quantities that are not whole: of a batch of 0.9 kg a transfer,
  or a shipment, of 0.2 kg leaves 0.7 kg in the parent, and 0.7 and 0.2 add up to less
  than 0.9, in floating point to 0.8999999999999999.
\<close>

theorem batch_split_mass_conservation_counterexample:
  "map quantity_kg (fst (applyWarehouseTransfersToBatches
       [mk_batch ''p'' ''rice'' (round_double (9 / 10)) ''A'' (Some 48) (Some 0)]
       (Some [decimal_suggestion]) 0))
     = [6305039478318694 / 2 ^ 53, round_double (2 / 10)]
   \<and> map quantity_kg (fst (snd (shipment_loop 5 ''c''
        [mk_batch ''p'' ''rice'' (round_double (9 / 10)) ''A'' (Some 48) (Some 0)]
        (round_double (2 / 10))))) = [6305039478318694 / 2 ^ 53]
   \<and> map quantity_kg (fst (snd (snd (shipment_loop 5 ''c''
        [mk_batch ''p'' ''rice'' (round_double (9 / 10)) ''A'' (Some 48) (Some 0)]
        (round_double (2 / 10)))))) = [round_double (2 / 10)]
   \<and> 6305039478318694 / 2 ^ 53 + round_double (2 / 10) \<noteq> round_double (9 / 10)
   \<and> round_double (6305039478318694 / 2 ^ 53 + round_double (2 / 10)) \<noteq> round_double (9 / 10)
   \<and> round_double (6305039478318694 / 2 ^ 53 + round_double (2 / 10))
       = 8106479329266892 / 2 ^ 53
   \<and> round_double (9 / 10) = 8106479329266893 / 2 ^ 53"
  by code_simp

section \<open>The gate of the transfer planner\<close>


lemma length_filter_0_iff: "length (filter P xs) = 0 \<longleftrightarrow> \<not> (\<exists>x\<in>set xs. P x)"
  by (simp add: filter_empty_conv)


lemma shouldRun_debug:
  "snd (shouldRunTransferPlanner tn whList st) =
     (snd st)\<lparr>pd_imbalance := Some (imbalance_stats tn whList (fst st))\<rparr>"
  by (simp add: shouldRunTransferPlanner_def Let_def)


lemma ml_request_debug_no_cron:
  assumes "cronHours opts e = None"
    and "ml_request distFn planner clock e opts signals ngoOrgs warehouses ngos r st = Inr st'"
  shows "ms_debug st' = ms_debug st"
  using assms
  by (auto simp add: ml_request_def Let_def split: option.splits sum.splits)

lemma ml_requests_debug_no_cron:
  assumes "cronHours opts e = None"
    and "ml_requests distFn planner clock e opts signals ngoOrgs warehouses ngos rs st = Inr st'"
  shows "ms_debug st' = ms_debug st"
  using assms(2)
proof (induction rs arbitrary: st)
  case Nil
  then show ?case by simp
next
  case (Cons r rs)
  then obtain st1 where
    1: "ml_request distFn planner clock e opts signals ngoOrgs warehouses ngos r st = Inr st1"
    and 2: "ml_requests distFn planner clock e opts signals ngoOrgs warehouses ngos rs st1 = Inr st'"
    by (auto split: sum.splits)
  from Cons.IH [OF 2] ml_request_debug_no_cron [OF assms(1) 1] show ?case by simp
qed

lemma allocateML_one_shot_debug:
  assumes "cronHours opts e = None"
    and "allocateML_with distFn mlResp planner clock e ngoOrgs requests batches warehouses ngos opts
           = Inr (allocations, dbg)"
  shows "dbg = (if canUseTransferPlanner opts e
                then snd (planner_run_or_skip planner opts clock (plannerTuning opts e) warehouses
                            One_shot None (referenceDate opts) (batches, initial_debug opts e))
                else initial_debug opts e)"
  using assms(2) ml_requests_debug_no_cron [OF assms(1)]
  by (auto simp add: allocateML_with_def useTransferPlannerCron_def assms(1) Let_def
        split: sum.splits if_splits)






section \<open>The consume loop\<close>

lemma consume_allot:
  "consume fr bs remaining used unused = Inr (remaining', used', unused') \<Longrightarrow>
   used' = used @ map (used_entry fr) (allot bs remaining)
   \<and> remaining' = leftover bs remaining"
proof (induction bs arbitrary: remaining used unused)
  case Nil
  then show ?case by simp
next
  case (Cons b bs)
  show ?case
  proof (cases "remaining \<le> 0")
    case True
    with Cons.prems show ?thesis by simp
  next
    case False
    let ?q = "min (quantity_kg b) remaining"
    let ?u = "used @ [\<lparr> batchId = bid b, quantity = ?q, freshness = fr b \<rparr>]"
    from Cons.prems False obtain un where
      rec: "consume fr bs (js_sub remaining ?q) ?u un = Inr (remaining', used', unused')"
      by (auto simp add: Let_def split: option.splits if_splits)
    from Cons.IH [OF rec] False show ?thesis
      by (simp add: used_entry_def)
  qed
qed

lemma allot_nonpos: "remaining \<le> 0 \<Longrightarrow> allot bs remaining = []"
  by (cases bs) simp_all

lemma leftover_nonneg: "0 \<le> remaining \<Longrightarrow> 0 \<le> leftover bs remaining"
proof (induction bs arbitrary: remaining)
  case Nil
  then show ?case by simp
next
  case (Cons b bs)
  have "0 \<le> js_sub remaining (min (quantity_kg b) remaining)"
    by (rule js_sub_nonneg) simp
  from Cons.IH [OF this] Cons.prems show ?case by simp
qed

text \<open>
  The allocated quantity, the required quantity minus what the loop leaves, does not
  exceed a required quantity that is not negative.
\<close>

lemma allocated_le_required:
  assumes "0 \<le> r" and "is_double r"
  shows "js_sub r (leftover bs r) \<le> r"
proof (cases "leftover bs r \<le> r")
  case True
  from leftover_nonneg [OF assms(1)] True assms(2) show ?thesis
    by (rule js_sub_le)
next
  case False
  then have "round_double (r - leftover bs r) \<le> 0"
    by (intro round_double_nonpos) simp
  with assms(1) show ?thesis by (simp add: js_sub_def)
qed

lemma allot_prefix:
  "map fst (allot bs remaining) = take (length (allot bs remaining)) bs"
  by (induction bs arbitrary: remaining) simp_all

lemma allot_le_quantity:
  "(b, k) \<in> set (allot bs remaining) \<Longrightarrow> k \<le> quantity_kg b \<and> b \<in> set bs"
proof (induction bs arbitrary: remaining)
  case Nil
  then show ?case by simp
next
  case (Cons c cs)
  then show ?case by (auto split: if_splits)
qed

lemma allot_all_le_quantity:
  "list_all2 (\<lambda>x b. snd x \<le> quantity_kg b) (allot bs remaining)
     (take (length (allot bs remaining)) bs)"
  by (induction bs arbitrary: remaining) simp_all

lemma allot_sum_le_quantities:
  "sum_list (map snd (allot bs remaining))
   \<le> sum_list (map quantity_kg (take (length (allot bs remaining)) bs))"
proof (induction bs arbitrary: remaining)
  case Nil
  then show ?case by simp
next
  case (Cons b bs)
  show ?case
  proof (cases "remaining \<le> 0")
    case True
    then show ?thesis by simp
  next
    case False
    from Cons.IH [of "js_sub remaining (min (quantity_kg b) remaining)"] False show ?thesis
      by simp
  qed
qed

text \<open>
  With whole numbers every subtraction of the loop is exact: the allocated quantity is
  the sum of the quantities taken.
\<close>

lemma leftover_whole:
  assumes "whole remaining" and "0 \<le> remaining"
    and "\<forall>b\<in>set bs. whole (quantity_kg b) \<and> 0 \<le> quantity_kg b"
  shows "leftover bs remaining = remaining - sum_list (map snd (allot bs remaining))
         \<and> whole (leftover bs remaining) \<and> 0 \<le> leftover bs remaining
         \<and> leftover bs remaining \<le> remaining"
  using assms
proof (induction bs arbitrary: remaining)
  case Nil
  then show ?case by simp
next
  case (Cons b bs)
  show ?case
  proof (cases "remaining \<le> 0")
    case True
    with Cons.prems show ?thesis by simp
  next
    case False
    define k where "k = min (quantity_kg b) remaining"
    have k: "whole k" "0 \<le> k" "k \<le> remaining"
      using Cons.prems by (simp_all add: k_def min_def)
    from js_sub_whole [OF Cons.prems(1) k] have
      s: "js_sub remaining k = remaining - k" and w: "whole (remaining - k)"
      by simp_all
    have nn: "0 \<le> remaining - k" using k by simp
    have rest: "\<forall>b\<in>set bs. whole (quantity_kg b) \<and> 0 \<le> quantity_kg b"
      using Cons.prems(3) by simp
    note ih = Cons.IH [OF w nn rest]
    have e1: "leftover (b # bs) remaining = leftover bs (remaining - k)"
      using False by (simp add: k_def [symmetric] s)
    have e2: "allot (b # bs) remaining = (b, k) # allot bs (remaining - k)"
      using False by (simp add: k_def [symmetric] s)
    show ?thesis
      unfolding e1 e2
    proof (intro conjI)
      show "leftover bs (remaining - k)
            = remaining - sum_list (map snd ((b, k) # allot bs (remaining - k)))"
        using ih [THEN conjunct1] by simp
      show "whole (leftover bs (remaining - k))"
        by (rule ih [THEN conjunct2, THEN conjunct1])
      show "0 \<le> leftover bs (remaining - k)"
        by (rule ih [THEN conjunct2, THEN conjunct2, THEN conjunct1])
      show "leftover bs (remaining - k) \<le> remaining"
        using ih [THEN conjunct2, THEN conjunct2, THEN conjunct2] k(2) by linarith
    qed
  qed
qed

lemma allocated_whole:
  assumes "whole r" and "\<forall>b\<in>set bs. whole (quantity_kg b) \<and> 0 \<le> quantity_kg b"
  shows "js_sub r (leftover bs r) = sum_list (map snd (allot bs r))"
proof (cases "r \<le> 0")
  case True
  then have "leftover bs r = r" "allot bs r = []" by (cases bs; simp)+
  then show ?thesis by (simp add: js_sub_def round_double_0)
next
  case False
  then have r: "0 \<le> r" by simp
  note l = leftover_whole [OF assms(1) r assms(2)]
  from js_sub_whole [OF assms(1) l [THEN conjunct2, THEN conjunct1]
        l [THEN conjunct2, THEN conjunct2, THEN conjunct1]
        l [THEN conjunct2, THEN conjunct2, THEN conjunct2]]
  have "js_sub r (leftover bs r) = r - leftover bs r" by (rule conjunct1)
  also have "\<dots> = sum_list (map snd (allot bs r))"
    using l [THEN conjunct1] by linarith
  finally show ?thesis .
qed

lemma allot_nonempty_pos:
  "0 < remaining \<Longrightarrow> bs \<noteq> [] \<Longrightarrow> allot bs remaining \<noteq> []"
  by (cases bs) simp_all

text \<open>The search by identifier never fails on batches taken from the inventory.\<close>

lemma findIndex_Some:
  "\<exists>x\<in>set xs. P x \<Longrightarrow> \<exists>i. findIndex P xs = Some i \<and> i < length xs \<and> P (xs ! i)"
proof (induction xs)
  case Nil
  then show ?case by simp
next
  case (Cons x xs)
  show ?case
  proof (cases "P x")
    case True
    then show ?thesis by simp
  next
    case False
    with Cons.prems have "\<exists>x\<in>set xs. P x" by simp
    from Cons.IH [OF this] obtain i where "findIndex P xs = Some i" "i < length xs" "P (xs ! i)"
      by blast
    with False show ?thesis by simp
  qed
qed

lemma mset_splice1:
  "i < length xs \<Longrightarrow> mset (splice1 i xs) = mset xs - {#xs ! i#}"
proof -
  assume i: "i < length xs"
  have "xs = take i xs @ (xs ! i) # drop (Suc i) xs"
    using i by (simp add: id_take_nth_drop)
  then have "mset xs = mset (take i xs) + {#xs ! i#} + mset (drop (Suc i) xs)"
    by (metis mset.simps(2) mset_append add_mset_add_single union_assoc union_commute)
  then show ?thesis
    by (simp add: splice1_def)
qed

lemma map_splice1: "map f (splice1 i xs) = splice1 i (map f xs)"
  by (simp add: splice1_def take_map drop_map)

lemma consume_no_error:
  "mset (map bid bs) \<subseteq># mset (map bid unused) \<Longrightarrow>
   \<exists>res. consume fr bs remaining used unused = Inr res"
proof (induction bs arbitrary: remaining used unused)
  case Nil
  then show ?case by simp
next
  case (Cons b bs)
  show ?case
  proof (cases "remaining \<le> 0")
    case True
    then show ?thesis by simp
  next
    case False
    have "bid b \<in># mset (map bid unused)"
      using Cons.prems by (simp add: insert_subset_eq_iff)
    then have "\<exists>x\<in>set unused. bid x = bid b" by auto
    from findIndex_Some [OF this] obtain i where
      i: "findIndex (\<lambda>x. bid x = bid b) unused = Some i" "i < length unused"
         "bid (unused ! i) = bid b"
      by blast
    have rest: "mset (map bid bs) \<subseteq># mset (map bid unused) - {#bid b#}"
      using Cons.prems by (simp add: insert_subset_eq_iff)
    have 1: "mset (map bid bs) \<subseteq># mset (map bid (splice1 i unused))"
      using rest i by (simp add: map_splice1 mset_splice1)
    have "mset (map bid bs) \<subseteq># mset (map bid unused)"
      using rest by (meson diff_subset_eq_self subset_mset.order_trans)
    then have 2: "mset (map bid bs) \<subseteq># mset (map bid (unused[i := (unused ! i)\<lparr>quantity_kg := v\<rparr>]))"
      for v
      by (simp add: map_update list_update_same_conv [THEN iffD2] i)
    show ?thesis
      using False i Cons.IH [OF 1] Cons.IH [OF 2] by (simp add: Let_def)
  qed
qed

section \<open>Sorted results\<close>

text \<open>
  With a comparator that decides a total preorder on the elements at hand, the sort
  yields a list in that order.
\<close>

lemma sorted_wrt_js_insert:
  assumes cmp: "\<And>a b. a \<in> A \<Longrightarrow> b \<in> A \<Longrightarrow> (cmp a b \<le> 0 \<longleftrightarrow> le a b)"
    and total: "\<And>a b. a \<in> A \<Longrightarrow> b \<in> A \<Longrightarrow> le a b \<or> le b a"
    and trans: "\<And>a b c. a \<in> A \<Longrightarrow> b \<in> A \<Longrightarrow> c \<in> A \<Longrightarrow> le a b \<Longrightarrow> le b c \<Longrightarrow> le a c"
  shows "x \<in> A \<Longrightarrow> set ys \<subseteq> A \<Longrightarrow> sorted_wrt le ys \<Longrightarrow> sorted_wrt le (js_insert cmp x ys)"
proof (induction ys)
  case Nil
  then show ?case by simp
next
  case (Cons y ys)
  show ?case
  proof (cases "cmp x y \<le> 0")
    case True
    then have xy: "le x y" using cmp Cons.prems by simp
    have "le x z" if "z \<in> set ys" for z
    proof -
      have "le y z" using Cons.prems(3) that by simp
      moreover have "x \<in> A" "y \<in> A" "z \<in> A" using Cons.prems that by auto
      ultimately show ?thesis using xy trans by blast
    qed
    with True xy Cons.prems(3) show ?thesis by simp
  next
    case False
    then have "\<not> le x y" using cmp Cons.prems by simp
    then have yx: "le y x" using total [of x y] Cons.prems by auto
    have "sorted_wrt le (js_insert cmp x ys)"
      using Cons by simp
    with False yx Cons.prems(3) show ?thesis
      by (auto simp add: set_js_insert)
  qed
qed

lemma sorted_wrt_js_sort:
  assumes cmp: "\<And>a b. a \<in> A \<Longrightarrow> b \<in> A \<Longrightarrow> (cmp a b \<le> 0 \<longleftrightarrow> le a b)"
    and total: "\<And>a b. a \<in> A \<Longrightarrow> b \<in> A \<Longrightarrow> le a b \<or> le b a"
    and trans: "\<And>a b c. a \<in> A \<Longrightarrow> b \<in> A \<Longrightarrow> c \<in> A \<Longrightarrow> le a b \<Longrightarrow> le b c \<Longrightarrow> le a c"
  shows "set xs \<subseteq> A \<Longrightarrow> sorted_wrt le (js_sort cmp xs)"
proof (induction xs)
  case Nil
  then show ?case by simp
next
  case (Cons x xs)
  then have 1: "sorted_wrt le (js_sort cmp xs)" by simp
  have 2: "x \<in> A" and 3: "set (js_sort cmp xs) \<subseteq> A"
    using Cons.prems by (simp_all add: set_js_sort)
  have "sorted_wrt le (js_insert cmp x (js_sort cmp xs))"
    using cmp total trans 2 3 1 by (rule sorted_wrt_js_insert [of A cmp le])
  then show ?case by simp
qed

lemma warehousesByDistance_sorted:
  "sorted_wrt (\<lambda>a b. snd a \<le> snd b) (warehousesByDistance distFn ngoNode warehouses)"
  unfolding warehousesByDistance_def
  by (rule sorted_wrt_js_sort [where A = UNIV]) auto

lemma warehousesByDistance_set:
  "set (warehousesByDistance distFn ngoNode warehouses)
   = (\<lambda>w. (w, distFn ngoNode w)) ` set warehouses"
  by (simp add: warehousesByDistance_def set_js_sort)

text \<open>The first element of a sorted list with a property is a least one with it.\<close>

lemma find_sorted_least:
  assumes "sorted_wrt (\<lambda>a b. key a \<le> (key b :: real)) xs" and "find P xs = Some x"
    and "y \<in> set xs" and "P y"
  shows "key x \<le> key y"
  using assms
proof (induction xs)
  case Nil
  then show ?case by simp
next
  case (Cons z zs)
  show ?case
  proof (cases "P z")
    case True
    with Cons.prems have "x = z" by simp
    with Cons.prems show ?thesis by auto
  next
    case False
    with Cons.prems have "find P zs = Some x" "y \<in> set zs" "sorted_wrt (\<lambda>a b. key a \<le> key b) zs"
      by auto
    with Cons.IH Cons.prems(4) show ?thesis by simp
  qed
qed

lemma find_Some_set: "find P xs = Some x \<Longrightarrow> x \<in> set xs \<and> P x"
  by (induction xs) (auto split: if_splits)

lemma find_None_set: "find P xs = None \<longleftrightarrow> (\<forall>x\<in>set xs. \<not> P x)"
  by (induction xs) auto

section \<open>The baseline allocator: one line item\<close>

lemma regular_item_Some:
  assumes "regular_item byDistance reqId d it unused = Inr (Some a, unused')"
  shows "\<exists>w km. regular_source byDistance unused (item_foodType it) d = Some (w, km)
     \<and> a = \<lparr> requestId = reqId, alloc_foodType = item_foodType it,
             alloc_required_kg = required_kg it,
             allocated_kg = js_sub (required_kg it)
               (leftover (regular_available unused (item_foodType it) (nid w) d)
                  (required_kg it)),
             alloc_warehouse = nid w, warehouseName = nname w, distance_km = km,
             alloc_batches = map (used_entry stored_freshness)
               (allot (regular_available unused (item_foodType it) (nid w) d) (required_kg it)),
             strategy = ''regular'', alloc_dispatchTime = d \<rparr>
     \<and> 0 < js_sub (required_kg it)
               (leftover (regular_available unused (item_foodType it) (nid w) d)
                  (required_kg it))"
proof -
  from assms obtain w km where
    src: "regular_source byDistance unused (item_foodType it) d = Some (w, km)"
    by (auto simp add: regular_item_def split: option.splits)
  let ?av = "regular_available unused (item_foodType it) (nid w) d"
  from assms src obtain remaining used where
    c: "consume stored_freshness ?av (required_kg it) [] unused = Inr (remaining, used, unused')"
    and pos: "0 < js_sub (required_kg it) remaining"
    and a: "a = \<lparr> requestId = reqId, alloc_foodType = item_foodType it,
             alloc_required_kg = required_kg it,
             allocated_kg = js_sub (required_kg it) remaining,
             alloc_warehouse = nid w, warehouseName = nname w, distance_km = km,
             alloc_batches = used, strategy = ''regular'', alloc_dispatchTime = d \<rparr>"
    by (auto simp add: regular_item_def Let_def split: sum.splits if_splits)
  from consume_allot [OF c] have
    "used = map (used_entry stored_freshness) (allot ?av (required_kg it))"
    "remaining = leftover ?av (required_kg it)"
    by simp_all
  with src pos a show ?thesis by simp
qed

lemma regular_source_Some:
  assumes "regular_source (warehousesByDistance distFn ngoNode warehouses) unused ft d
           = Some (w, km)"
  shows "w \<in> set warehouses \<and> km = distFn ngoNode w
         \<and> (\<exists>b\<in>set unused. eligible_regular b ft (nid w) d)
         \<and> (\<forall>w'\<in>set warehouses. (\<exists>b\<in>set unused. eligible_regular b ft (nid w') d)
               \<longrightarrow> km \<le> distFn ngoNode w')"
proof -
  let ?P = "\<lambda>(w, km). list_ex (\<lambda>b. eligible_regular b ft (nid w) d) unused"
  let ?xs = "warehousesByDistance distFn ngoNode warehouses"
  have f: "find ?P ?xs = Some (w, km)"
    using assms by (simp add: regular_source_def)
  from find_Some_set [OF f] have mem: "(w, km) \<in> set ?xs" and P: "?P (w, km)"
    by simp_all
  from mem have w: "w \<in> set warehouses" "km = distFn ngoNode w"
    by (auto simp add: warehousesByDistance_set)
  have least: "km \<le> distFn ngoNode w'"
    if "w' \<in> set warehouses" "\<exists>b\<in>set unused. eligible_regular b ft (nid w') d" for w'
  proof -
    have "(w', distFn ngoNode w') \<in> set ?xs"
      using that(1) by (simp add: warehousesByDistance_set)
    moreover have "?P (w', distFn ngoNode w')"
      using that(2) by (simp add: list_ex_iff)
    ultimately have "snd (w, km) \<le> snd (w', distFn ngoNode w')"
      using find_sorted_least [OF warehousesByDistance_sorted f] by blast
    then show ?thesis by simp
  qed
  from w P least show ?thesis by (auto simp add: list_ex_iff)
qed

lemma regular_source_None:
  "regular_source (warehousesByDistance distFn ngoNode warehouses) unused ft d = None
   \<longleftrightarrow> \<not> (\<exists>w\<in>set warehouses. \<exists>b\<in>set unused. eligible_regular b ft (nid w) d)"
  by (auto simp add: regular_source_def find_None_set warehousesByDistance_set list_ex_iff)

lemma regular_available_mset:
  "mset (regular_available unused ft wh d)
   = mset (filter (\<lambda>b. eligible_regular b ft wh d) unused)"
  by (simp add: regular_available_def mset_js_sort)

lemma regular_available_set:
  "set (regular_available unused ft wh d) = {b \<in> set unused. eligible_regular b ft wh d}"
  by (simp add: regular_available_def set_js_sort)

lemma sum_list_mset_cong:
  "mset xs = mset ys \<Longrightarrow> sum_list (map f xs) = (sum_list (map f ys) :: real)"
  by (metis mset_map sum_mset_sum_list)

lemma used_entries_of_allot:
  assumes "u \<in> set (map (used_entry fr) (allot bs r))"
  shows "\<exists>b\<in>set bs. batchId u = bid b \<and> quantity u \<le> quantity_kg b \<and> freshness u = fr b"
proof -
  from assms obtain b k where "(b, k) \<in> set (allot bs r)" "u = used_entry fr (b, k)"
    by auto
  with allot_le_quantity [of b k bs r] show ?thesis
    by (auto simp add: used_entry_def)
qed

lemma map_batchId_used_entry:
  "map batchId (map (used_entry fr) (allot bs r)) = map bid (take (length (allot bs r)) bs)"
proof -
  have "map batchId (map (used_entry fr) (allot bs r)) = map bid (map fst (allot bs r))"
    by (simp add: used_entry_def)
  then show ?thesis by (simp add: allot_prefix)
qed

lemma sum_quantity_used_entry:
  "sum_list (map quantity (map (used_entry fr) xs)) = sum_list (map snd xs)"
  by (simp add: used_entry_def comp_def)


text \<open>
  C6.  The claim has the baseline consume the batches of the nearest warehouse in the
  order of ascending remaining shelf life, and the comment at the sort says the same
  (the most time-critical batches first).  The comparator follows the remaining shelf
  life only for two batches that both have an expiry; as soon as one of them has none it
  orders the two by manufacture time.  So with 60 kg that have 17 hours left and 30 kg
  without an expiry, manufactured an hour earlier, at the same warehouse, a request for
  30 kg is served from the batch without an expiry.  The comparator is moreover cyclic:
  a batch with 18 hours left comes before one with 56 hours left, that one before a
  batch without an expiry manufactured after it, and this one before the first, so that
  the order of three such batches is left to the sort of the engine.  What the claim
  says of the warehouse holds in its scenario: with 60 kg at the nearest warehouse and
  100 kg requested, 60 kg are allocated, all from that warehouse.
\<close>

theorem baseline_order_not_fefo:
  "regular_item (warehousesByDistance example_distance example_ngo two_warehouses) ''R1''
       (24 * 3600000) (rice 30) mixed_batches
     = Inr (Some \<lparr> requestId = ''R1'', alloc_foodType = ''rice'', alloc_required_kg = 30,
                   allocated_kg = 30, alloc_warehouse = ''A'', warehouseName = ''WA'',
                   distance_km = 10,
                   alloc_batches = [\<lparr> batchId = ''keeps'', quantity = 30, freshness = 100 \<rparr>],
                   strategy = ''regular'', alloc_dispatchTime = 24 * 3600000 \<rparr>,
            [mk_batch ''perishable'' ''rice'' 60 ''A'' (Some 50) (Some 3600000)])
   \<and> remainingShelfLifeHours
        (mk_batch ''perishable'' ''rice'' 60 ''A'' (Some 50) (Some 3600000)) (24 * 3600000) 25
      = Fin 17
   \<and> shelf_life_hours (mk_batch ''keeps'' ''rice'' 30 ''A'' None (Some 0)) = None
   \<and> regular_cmp (24 * 3600000)
        (mk_batch ''late'' ''rice'' 10 ''A'' (Some 50) (Some (2 * 3600000)))
        (mk_batch ''early'' ''rice'' 10 ''A'' (Some 100) (Some 0)) < 0
   \<and> regular_cmp (24 * 3600000)
        (mk_batch ''early'' ''rice'' 10 ''A'' (Some 100) (Some 0))
        (mk_batch ''between'' ''rice'' 10 ''A'' None (Some 3600000)) < 0
   \<and> regular_cmp (24 * 3600000)
        (mk_batch ''between'' ''rice'' 10 ''A'' None (Some 3600000))
        (mk_batch ''late'' ''rice'' 10 ''A'' (Some 50) (Some (2 * 3600000))) < 0
   \<and> allocateRegular_with example_distance 0 example_orgs
        [mk_request ''R1'' ''org1'' ''rice'' 100 0] scenario_batches two_warehouses
        [example_ngo] no_options = Inr [scenario_allocation]"
  by code_simp

section \<open>The scored allocator: one line item\<close>

lemma tiered_cases:
  "fst (tiered e cands) = js_sort ml_cmp (filter (\<lambda>x. preferredMinDeliveredFreshnessPct e \<le> freshnessAtDelivery x) cands)
   \<or> fst (tiered e cands) = js_sort ml_cmp (filter (\<lambda>x. relaxedMinDeliveredFreshnessPct e \<le> freshnessAtDelivery x) cands)
   \<or> fst (tiered e cands) = js_sort ml_cmp (filter (\<lambda>x. 0 < freshnessAtDelivery x) cands)"
  by (simp add: tiered_def Let_def)

lemma tiered_mset: "mset (fst (tiered e cands)) \<subseteq># mset cands"
  using tiered_cases [of e cands] by (auto simp add: mset_js_sort)

lemma tiered_set: "set (fst (tiered e cands)) \<subseteq> set cands"
  using tiered_cases [of e cands] by (auto simp add: set_js_sort)

lemma candidateBatches_member:
  assumes "x \<in> set (candidateBatches un ft wh d del)"
  shows "sc_batch x \<in> set un \<and> foodType (sc_batch x) = ft \<and> currentNode (sc_batch x) = wh
         \<and> status (sc_batch x) = Stored \<and> available_by (sc_batch x) d
         \<and> jsnum_pos (safeRemainingShelfLifeHours (sc_batch x) d)
         \<and> 0 < calculateFreshnessPct (sc_batch x) del 25"
  using assms by (auto simp add: candidateBatches_def)

lemma candidateBatches_mset:
  "mset (map sc_batch (candidateBatches un ft wh d del)) \<subseteq># mset un"
proof -
  have "map sc_batch (candidateBatches un ft wh d del)
        = filter (\<lambda>b. (foodType b = ft \<and> currentNode b \<noteq> [] \<and> currentNode b = wh
                        \<and> status b = Stored \<and> available_by b d)
                       \<and> jsnum_pos (safeRemainingShelfLifeHours b d)
                       \<and> 0 < calculateFreshnessPct b del 25) un"
    by (simp add: candidateBatches_def filter_map comp_def conj_commute conj_left_commute)
  then show ?thesis
    by (simp only: mset_filter multiset_filter_subset)
qed

lemma ranked_mset:
  "mset (map sc_batch (fst (tiered e (candidateBatches un ft wh d del)))) \<subseteq># mset un"
proof -
  have "mset (map sc_batch (fst (tiered e (candidateBatches un ft wh d del))))
        \<subseteq># mset (map sc_batch (candidateBatches un ft wh d del))"
    using tiered_mset [of e "candidateBatches un ft wh d del"]
    by (metis image_mset_subseteq_mono mset_map)
  then show ?thesis
    using candidateBatches_mset [of un ft wh d del] by (rule subset_mset.order_trans)
qed

lemma evaluate_candidate_best_from:
  assumes "c \<in> C" "best_from e it d un C (fst bests)" "best_from e it d un C (snd bests)"
  shows "best_from e it d un C (fst (evaluate_candidate e boost it d un c bests))
         \<and> best_from e it d un C (snd (evaluate_candidate e boost it d un c bests))"
proof -
  let ?this = "\<lparr> bestScore = Some (candidate_score e boost (required_kg it) (snd c)
                     (tiered e (candidateBatches un (item_foodType it) (nid (fst c)) d
                        (deliveryTime d (snd c))))),
                  bestWarehouse = Some (fst c),
                  bestBatches = fst (tiered e (candidateBatches un (item_foodType it)
                                  (nid (fst c)) d (deliveryTime d (snd c)))),
                  bestFulfillment = fulfillmentRatio
                     (fst (tiered e (candidateBatches un (item_foodType it) (nid (fst c)) d
                        (deliveryTime d (snd c))))) (required_kg it) \<rparr>"
  have t: "best_from e it d un C ?this"
    using assms(1) by (auto simp add: best_from_def)
  show ?thesis
    using t assms(2,3) by (simp add: evaluate_candidate_def Let_def)
qed

lemma evaluateCandidates_best_from:
  assumes "set cands \<subseteq> C" "best_from e it d un C (fst bests)" "best_from e it d un C (snd bests)"
  shows "best_from e it d un C (fst (evaluateCandidates e boost it d un cands bests))
         \<and> best_from e it d un C (snd (evaluateCandidates e boost it d un cands bests))"
  using assms
proof (induction cands arbitrary: bests)
  case Nil
  then show ?case by (simp add: evaluateCandidates_def)
next
  case (Cons c cs)
  have c: "c \<in> C" and cs: "set cs \<subseteq> C" using Cons.prems(1) by simp_all
  from evaluate_candidate_best_from [OF c Cons.prems(2,3), of boost]
  have "best_from e it d un C (fst (evaluate_candidate e boost it d un c bests))"
    "best_from e it d un C (snd (evaluate_candidate e boost it d un c bests))"
    by simp_all
  from Cons.IH [OF cs this] show ?case
    by (simp add: evaluateCandidates_def)
qed

lemma allWarehouseCandidates_set:
  "set (allWarehouseCandidates distFn e ngoNode warehouses)
   \<subseteq> (\<lambda>w. (w, distFn ngoNode w)) ` set warehouses"
  by (auto simp add: allWarehouseCandidates_def set_js_sort)

lemma no_best_from: "best_from e it d un C no_best"
  by (simp add: best_from_def no_best_def)

lemma choose_best_Some:
  assumes "choose_best distFn e boost ngoNode warehouses it d un = Some (wh, ranked)"
  shows "wh \<in> set warehouses
         \<and> ranked = fst (tiered e (candidateBatches un (item_foodType it) (nid wh) d
                                   (deliveryTime d (distFn ngoNode wh))))"
proof -
  let ?C = "(\<lambda>w. (w, distFn ngoNode w)) ` set warehouses"
  define allC where "allC = allWarehouseCandidates distFn e ngoNode warehouses"
  define prim where "prim = take (nat \<lfloor>max 1 (topKWarehouses e)\<rfloor>) allC"
  define b1 where "b1 = evaluateCandidates e boost it d un prim (no_best, no_best)"
  define b2 where "b2 = evaluateCandidates e boost it d un allC b1"
  define widen where "widen \<longleftrightarrow> length prim < length allC
                \<and> (bestWarehouse (fst b1) = None \<or> bestFulfillment (fst b1) < 0.95)"
  define b where "b = (if widen then b2 else b1)"
  define useInCap where "useInCap \<longleftrightarrow> bestWarehouse (snd b) \<noteq> None
                    \<and> minInCapFulfillment e \<le> bestFulfillment (snd b)"
  define chosen where "chosen = (if useInCap then snd b else fst b)"
  have allC: "set allC \<subseteq> ?C"
    unfolding allC_def by (rule allWarehouseCandidates_set)
  have prim: "set prim \<subseteq> ?C"
    using allC set_take_subset [of "nat \<lfloor>max 1 (topKWarehouses e)\<rfloor>" allC]
    unfolding prim_def by (rule_tac subset_trans)
  have p1: "best_from e it d un ?C (fst b1) \<and> best_from e it d un ?C (snd b1)"
    unfolding b1_def
    by (rule evaluateCandidates_best_from [OF prim]) (simp_all add: no_best_from)
  have p2: "best_from e it d un ?C (fst b2) \<and> best_from e it d un ?C (snd b2)"
    unfolding b2_def
    using p1 by (intro evaluateCandidates_best_from [OF allC]) simp_all
  have pb: "best_from e it d un ?C (fst b) \<and> best_from e it d un ?C (snd b)"
    using p1 p2 by (simp add: b_def)
  have bf: "best_from e it d un ?C chosen"
    using pb by (simp add: chosen_def)
  have eq: "choose_best distFn e boost ngoNode warehouses it d un
            = (case bestWarehouse chosen of
                 None \<Rightarrow> None | Some w \<Rightarrow> Some (w, bestBatches chosen))"
    unfolding choose_best_def Let_def chosen_def useInCap_def b_def widen_def b2_def b1_def
      prim_def allC_def
    by (rule refl)
  from assms have w: "bestWarehouse chosen = Some wh" and r: "ranked = bestBatches chosen"
    unfolding eq by (simp_all split: option.splits)
  from bf w r show ?thesis
    unfolding best_from_def by auto
qed

lemma ml_item_Some:
  assumes "ml_item distFn e boost ngoNode warehouses reqId d it un = Inr (Some a, un')"
  shows "\<exists>wh. wh \<in> set warehouses
     \<and> a = \<lparr> requestId = reqId, alloc_foodType = item_foodType it,
             alloc_required_kg = required_kg it,
             allocated_kg = js_sub (required_kg it)
               (leftover (map sc_batch (fst (tiered e (candidateBatches un (item_foodType it)
                   (nid wh) d (deliveryTime d (distFn ngoNode wh)))))) (required_kg it)),
             alloc_warehouse = nid wh, warehouseName = nname wh,
             distance_km = distFn ngoNode wh,
             alloc_batches = map (used_entry (\<lambda>b. calculateFreshnessPct b d 25))
               (allot (map sc_batch (fst (tiered e (candidateBatches un (item_foodType it)
                   (nid wh) d (deliveryTime d (distFn ngoNode wh)))))) (required_kg it)),
             strategy = ''ml'', alloc_dispatchTime = d \<rparr>"
proof -
  from assms obtain wh ranked where
    cb: "choose_best distFn e boost ngoNode warehouses it d un = Some (wh, ranked)"
    by (auto simp add: ml_item_def split: option.splits)
  from assms cb obtain remaining used where
    c: "consume (\<lambda>b. calculateFreshnessPct b d 25) (map sc_batch ranked) (required_kg it) [] un
          = Inr (remaining, used, un')"
    and a: "a = \<lparr> requestId = reqId, alloc_foodType = item_foodType it,
             alloc_required_kg = required_kg it,
             allocated_kg = js_sub (required_kg it) remaining,
             alloc_warehouse = nid wh, warehouseName = nname wh,
             distance_km = distFn ngoNode wh, alloc_batches = used, strategy = ''ml'',
             alloc_dispatchTime = d \<rparr>"
    by (auto simp add: ml_item_def split: sum.splits)
  from consume_allot [OF c] have u:
    "used = map (used_entry (\<lambda>b. calculateFreshnessPct b d 25))
              (allot (map sc_batch ranked) (required_kg it))"
    "remaining = leftover (map sc_batch ranked) (required_kg it)"
    by simp_all
  from choose_best_Some [OF cb] have wh: "wh \<in> set warehouses"
    and r: "ranked = fst (tiered e (candidateBatches un (item_foodType it) (nid wh) d
                                   (deliveryTime d (distFn ngoNode wh))))"
    by simp_all
  show ?thesis
    by (rule exI [of _ wh]) (simp add: wh a u r [symmetric])
qed

lemma ml_item_no_error:
  "\<exists>res. ml_item distFn e boost ngoNode warehouses reqId d it un = Inr res"
proof (cases "choose_best distFn e boost ngoNode warehouses it d un")
  case None
  then show ?thesis by (simp add: ml_item_def)
next
  case (Some p)
  obtain wh ranked where p: "p = (wh, ranked)" by (cases p)
  from choose_best_Some [OF Some [unfolded p]] have
    "mset (map bid (map sc_batch ranked)) \<subseteq># mset (map bid un)"
    using ranked_mset [of e un "item_foodType it" "nid wh" d "deliveryTime d (distFn ngoNode wh)"]
    by (metis image_mset_subseteq_mono mset_map)
  from consume_no_error [OF this] obtain res where
    "consume (\<lambda>b. calculateFreshnessPct b d 25) (map sc_batch ranked) (required_kg it) [] un
       = Inr res"
    by blast
  then show ?thesis
    using Some p by (cases res) (simp add: ml_item_def)
qed

lemma regular_item_no_error:
  "\<exists>res. regular_item byDistance reqId d it un = Inr res"
proof (cases "regular_source byDistance un (item_foodType it) d")
  case None
  then show ?thesis by (simp add: regular_item_def)
next
  case (Some p)
  obtain w km where p: "p = (w, km)" by (cases p)
  have "mset (regular_available un (item_foodType it) (nid w) d) \<subseteq># mset un"
    by (simp add: regular_available_mset)
  then have "mset (map bid (regular_available un (item_foodType it) (nid w) d))
             \<subseteq># mset (map bid un)"
    by (metis image_mset_subseteq_mono mset_map)
  from consume_no_error [OF this] obtain res where
    "consume stored_freshness (regular_available un (item_foodType it) (nid w) d)
       (required_kg it) [] un = Inr res"
    by blast
  then show ?thesis
    using Some p by (cases res) (simp add: regular_item_def Let_def)
qed

section \<open>The baseline allocator: the whole run\<close>

lemma regular_items_inv:
  assumes step: "\<And>it un a un'. it \<in> Its \<Longrightarrow> I un \<Longrightarrow>
                   regular_item byDistance reqId d it un = Inr (a, un')
                   \<Longrightarrow> I un' \<and> (\<forall>x. a = Some x \<longrightarrow> P x)"
    and run: "regular_items byDistance reqId d its (allocs, un) = Inr (allocs', un')"
    and its: "set its \<subseteq> Its"
    and inv: "I un" "\<forall>a\<in>set allocs. P a"
  shows "I un' \<and> (\<forall>a\<in>set allocs'. P a)"
  using run its inv
proof (induction its arbitrary: allocs un)
  case Nil
  then show ?case by simp
next
  case (Cons it its)
  from Cons.prems(1) obtain a un1 where
    1: "regular_item byDistance reqId d it un = Inr (a, un1)"
    and 2: "regular_items byDistance reqId d its
              (allocs @ (case a of None \<Rightarrow> [] | Some x \<Rightarrow> [x]), un1) = Inr (allocs', un')"
    by (auto split: sum.splits)
  have it: "it \<in> Its" and rest: "set its \<subseteq> Its" using Cons.prems(2) by simp_all
  from step [OF it Cons.prems(3) 1] have i1: "I un1" and p: "\<forall>x. a = Some x \<longrightarrow> P x"
    by simp_all
  have "\<forall>y\<in>set (allocs @ (case a of None \<Rightarrow> [] | Some x \<Rightarrow> [x])). P y"
    using Cons.prems(4) p by (auto split: option.splits)
  from Cons.IH [OF 2 rest i1 this] show ?case .
qed

lemma regular_requests_inv:
  assumes step: "\<And>ngoNode reqId d it un a un'. it \<in> Its \<Longrightarrow> I un \<Longrightarrow>
                   regular_item (warehousesByDistance distFn ngoNode warehouses) reqId d it un
                     = Inr (a, un')
                   \<Longrightarrow> I un' \<and> (\<forall>x. a = Some x \<longrightarrow> P x)"
    and run: "regular_requests distFn now ngoOrgs warehouses ngos opts rs (allocs, un)
                = Inr (allocs', un')"
    and its: "\<forall>r\<in>set rs. set (items r) \<subseteq> Its"
    and inv: "I un" "\<forall>a\<in>set allocs. P a"
  shows "I un' \<and> (\<forall>a\<in>set allocs'. P a)"
  using run its inv
proof (induction rs arbitrary: allocs un)
  case Nil
  then show ?case by simp
next
  case (Cons r rs)
  from Cons.prems(1) obtain allocs1 un1 where
    1: "regular_request distFn now ngoOrgs warehouses ngos opts r (allocs, un)
          = Inr (allocs1, un1)"
    and 2: "regular_requests distFn now ngoOrgs warehouses ngos opts rs (allocs1, un1)
          = Inr (allocs', un')"
    by (auto split: sum.splits)
  have r: "set (items r) \<subseteq> Its" and rest: "\<forall>r\<in>set rs. set (items r) \<subseteq> Its"
    using Cons.prems(2) by simp_all
  have "I un1 \<and> (\<forall>a\<in>set allocs1. P a)"
  proof (cases "find_ngo_node ngoOrgs ngos r")
    case None
    with 1 Cons.prems(3,4) show ?thesis by (simp add: regular_request_def Let_def)
  next
    case (Some ngoNode)
    show ?thesis
    proof (cases "warehousesByDistance distFn ngoNode warehouses = []")
      case True
      with 1 Some Cons.prems(3,4) show ?thesis by (simp add: regular_request_def Let_def)
    next
      case False
      with 1 Some have
        "regular_items (warehousesByDistance distFn ngoNode warehouses) (requestID r)
           (clamp_dispatch opts (request_time now r)) (items r) (allocs, un)
         = Inr (allocs1, un1)"
        by (simp add: regular_request_def Let_def)
      from regular_items_inv [where I = I and P = P, OF step this r Cons.prems(3,4)]
      show ?thesis .
    qed
  qed
  then have "I un1" "\<forall>a\<in>set allocs1. P a" by simp_all
  from Cons.IH [OF 2 rest this] show ?case .
qed

lemma allocateRegular_inv:
  assumes step: "\<And>ngoNode reqId d it un a un'. it \<in> Its \<Longrightarrow> I un \<Longrightarrow>
                   regular_item (warehousesByDistance distFn ngoNode warehouses) reqId d it un
                     = Inr (a, un')
                   \<Longrightarrow> I un' \<and> (\<forall>x. a = Some x \<longrightarrow> P x)"
    and run: "allocateRegular_with distFn now ngoOrgs requests batches warehouses ngos opts
                = Inr allocations"
    and its: "\<forall>r\<in>set requests. set (items r) \<subseteq> Its"
    and inv: "I batches"
  shows "\<forall>a\<in>set allocations. P a"
proof -
  from run obtain un' where
    "regular_requests distFn now ngoOrgs warehouses ngos opts requests ([], batches)
       = Inr (allocations, un')"
    by (auto simp add: allocateRegular_with_def split: sum.splits)
  from regular_requests_inv [where I = I and P = P, OF step this its inv]
  show ?thesis by simp
qed

lemma regular_items_no_error:
  "\<exists>res. regular_items byDistance reqId d its st = Inr res"
proof (induction its arbitrary: st)
  case Nil
  then show ?case by simp
next
  case (Cons it its)
  obtain allocs un where st: "st = (allocs, un)" by (cases st)
  from regular_item_no_error [of byDistance reqId d it un] obtain a un1 where
    "regular_item byDistance reqId d it un = Inr (a, un1)" by (metis surj_pair)
  with Cons.IH st show ?case by simp
qed

lemma regular_requests_no_error:
  "\<exists>res. regular_requests distFn now ngoOrgs warehouses ngos opts rs st = Inr res"
proof (induction rs arbitrary: st)
  case Nil
  then show ?case by simp
next
  case (Cons r rs)
  have "\<exists>st1. regular_request distFn now ngoOrgs warehouses ngos opts r st = Inr st1"
    using regular_items_no_error
    by (simp add: regular_request_def Let_def split: option.splits)
  then obtain st1 where
    "regular_request distFn now ngoOrgs warehouses ngos opts r st = Inr st1" by blast
  with Cons.IH [of st1] show ?case by simp
qed

lemma allocateRegular_no_error:
  "\<exists>allocations. allocateRegular_with distFn now ngoOrgs requests batches warehouses ngos opts
     = Inr allocations"
proof -
  from regular_requests_no_error obtain res where
    "regular_requests distFn now ngoOrgs warehouses ngos opts requests ([], batches) = Inr res"
    by blast
  then show ?thesis
    by (cases res) (simp add: allocateRegular_with_def)
qed

section \<open>The scored allocator: the whole run\<close>

lemma ml_items_inv:
  assumes step: "\<And>it un a un'. it \<in> Its \<Longrightarrow> I un \<Longrightarrow>
                   ml_item distFn e boost ngoNode warehouses reqId d it un = Inr (a, un')
                   \<Longrightarrow> I un' \<and> (\<forall>x. a = Some x \<longrightarrow> P x)"
    and run: "ml_items distFn e boost ngoNode warehouses reqId d its (allocs, un)
                = Inr (allocs', un')"
    and its: "set its \<subseteq> Its"
    and inv: "I un" "\<forall>a\<in>set allocs. P a"
  shows "I un' \<and> (\<forall>a\<in>set allocs'. P a)"
  using run its inv
proof (induction its arbitrary: allocs un)
  case Nil
  then show ?case by simp
next
  case (Cons it its)
  from Cons.prems(1) obtain a un1 where
    1: "ml_item distFn e boost ngoNode warehouses reqId d it un = Inr (a, un1)"
    and 2: "ml_items distFn e boost ngoNode warehouses reqId d its
              (allocs @ (case a of None \<Rightarrow> [] | Some x \<Rightarrow> [x]), un1) = Inr (allocs', un')"
    by (auto split: sum.splits)
  have it: "it \<in> Its" and rest: "set its \<subseteq> Its" using Cons.prems(2) by simp_all
  from step [OF it Cons.prems(3) 1] have i1: "I un1" and p: "\<forall>x. a = Some x \<longrightarrow> P x"
    by simp_all
  have "\<forall>y\<in>set (allocs @ (case a of None \<Rightarrow> [] | Some x \<Rightarrow> [x])). P y"
    using Cons.prems(4) p by (auto split: option.splits)
  from Cons.IH [OF 2 rest i1 this] show ?case .
qed

lemma cron_ticks_go:
  assumes "real cronRuns < maxRuns
           \<and> real_of_int nextCronRunAt + hours * 3600 * 1000 \<le> real_of_int dispatchTime"
  shows "cron_ticks planner opts clock tn whList maxRuns hours dispatchTime cronRuns
           nextCronRunAt pst
         = cron_ticks planner opts clock tn whList maxRuns hours dispatchTime (cronRuns + 1)
             (time_clip (real_of_int nextCronRunAt + hours * 3600 * 1000))
             (planner_run_or_skip planner opts clock tn whList (Cron_tick hours)
                (Some (time_clip (real_of_int nextCronRunAt + hours * 3600 * 1000)))
                (Some (time_clip (real_of_int nextCronRunAt + hours * 3600 * 1000))) pst)"
  by (subst cron_ticks.simps) (rule if_P [OF assms])

lemma cron_ticks_stop:
  assumes "\<not> (real cronRuns < maxRuns
           \<and> real_of_int nextCronRunAt + hours * 3600 * 1000 \<le> real_of_int dispatchTime)"
  shows "cron_ticks planner opts clock tn whList maxRuns hours dispatchTime cronRuns
           nextCronRunAt pst = (cronRuns, nextCronRunAt, pst)"
  by (subst cron_ticks.simps) (rule if_not_P [OF assms])

lemma cron_ticks_inv:
  "(\<And>reason now skippedAt pst. I (fst pst) \<Longrightarrow>
       I (fst (planner_run_or_skip planner opts clock tn whList reason now skippedAt pst)))
   \<Longrightarrow> I (fst pst) \<Longrightarrow>
   I (fst (snd (snd (cron_ticks planner opts clock tn whList maxRuns hours d n next pst))))"
proof (induction planner opts clock tn whList maxRuns hours d n "next" pst
       rule: cron_ticks.induct)
  case (1 planner opts clock tn whList maxRuns hours dispatchTime cronRuns nextCronRunAt pst)
  show ?case
  proof (cases "real cronRuns < maxRuns
         \<and> real_of_int nextCronRunAt + hours * 3600 * 1000 \<le> real_of_int dispatchTime")
    case True
    have "I (fst (planner_run_or_skip planner opts clock tn whList (Cron_tick hours)
                (Some (time_clip (real_of_int nextCronRunAt + hours * 3600 * 1000)))
                (Some (time_clip (real_of_int nextCronRunAt + hours * 3600 * 1000))) pst))"
      using "1.prems"(2) by (rule "1.prems"(1))
    from "1.IH" [OF True "1.prems"(1) this] show ?thesis
      unfolding cron_ticks_go [OF True] .
  next
    case False
    show ?thesis
      unfolding cron_ticks_stop [OF False] using "1.prems"(2) by simp
  qed
qed

lemma cron_init_inv:
  assumes plan: "\<And>reason now skippedAt pst. I (fst pst) \<Longrightarrow>
       I (fst (planner_run_or_skip planner opts clock (plannerTuning opts e) whList reason now
                 skippedAt pst))"
    and inv: "I (ms_unused st)"
  shows "I (ms_unused (cron_init planner opts clock e whList hours d st))
         \<and> ms_allocations (cron_init planner opts clock e whList hours d st)
           = ms_allocations st"
proof -
  have "I (fst (planner_run_or_skip planner opts clock (plannerTuning opts e) whList reason
                  now skippedAt (ms_unused st, ms_debug st)))" for reason now skippedAt
    by (rule plan) (simp add: inv)
  then show ?thesis
    using inv by (simp add: cron_init_def Let_def split: option.splits)
qed

lemma cron_step_inv:
  assumes plan: "\<And>reason now skippedAt pst. I (fst pst) \<Longrightarrow>
       I (fst (planner_run_or_skip planner opts clock (plannerTuning opts e) whList reason now
                 skippedAt pst))"
    and inv: "I (ms_unused st)"
  shows "I (ms_unused (cron_step planner opts clock e whList hours d st))
         \<and> ms_allocations (cron_step planner opts clock e whList hours d st)
           = ms_allocations st"
proof -
  define st1 where "st1 = cron_init planner opts clock e whList hours d st"
  have i1: "I (ms_unused st1)" and a1: "ms_allocations st1 = ms_allocations st"
    unfolding st1_def using cron_init_inv [where I = I, OF plan inv] by simp_all
  have t: "I (fst (snd (snd (cron_ticks planner opts clock (plannerTuning opts e) whList
                     (maxCronRuns e) hours d (ms_cronRuns st1) n
                     (ms_unused st1, ms_debug st1)))))" for n
    by (rule cron_ticks_inv [where I = I]) (rule plan, assumption, simp add: i1)
  show ?thesis
  proof (cases "ms_nextCronRunAt st1")
    case None
    with i1 a1 show ?thesis
      by (simp add: cron_step_def Let_def st1_def [symmetric])
  next
    case (Some n)
    obtain runs' next' pst' where
      c: "cron_ticks planner opts clock (plannerTuning opts e) whList (maxCronRuns e) hours d
            (ms_cronRuns st1) n (ms_unused st1, ms_debug st1) = (runs', next', pst')"
      by (metis surj_pair)
    from t [of n] have "I (fst pst')" unfolding c by simp
    with a1 show ?thesis
      by (simp add: cron_step_def Let_def st1_def [symmetric] Some c)
  qed
qed


lemma ml_request_inv:
  assumes step: "\<And>boost ngoNode reqId d it un a un'. it \<in> Its \<Longrightarrow> I un \<Longrightarrow>
                   ml_item distFn e boost ngoNode warehouses reqId d it un = Inr (a, un')
                   \<Longrightarrow> I un' \<and> (\<forall>x. a = Some x \<longrightarrow> P x)"
    and plan: "\<And>reason now skippedAt pst. I (fst pst) \<Longrightarrow>
       I (fst (planner_run_or_skip planner opts clock (plannerTuning opts e) warehouses reason
                 now skippedAt pst))"
    and run: "ml_request distFn planner clock e opts signals ngoOrgs warehouses ngos r st
                = Inr st'"
    and its: "set (items r) \<subseteq> Its"
    and inv: "I (ms_unused st)" "\<forall>a\<in>set (ms_allocations st). P a"
  shows "I (ms_unused st') \<and> (\<forall>a\<in>set (ms_allocations st'). P a)"
proof (cases "find_ngo_node ngoOrgs ngos r")
  case None
  with run inv show ?thesis by (simp add: ml_request_def)
next
  case (Some ngoNode)
  define d where "d = ml_dispatch_time opts clock r"
  define st1 where "st1 =
     (case cronHours opts e of
        Some hours \<Rightarrow>
          if canUseTransferPlanner opts e
          then cron_step planner opts clock e warehouses hours d st else st
      | None \<Rightarrow> st)"
  have i1: "I (ms_unused st1)" and a1: "ms_allocations st1 = ms_allocations st"
    using cron_step_inv [where I = I, OF plan inv(1)] inv(1)
    by (simp_all add: st1_def split: option.splits)
  from run Some obtain allocs un' where
    m: "ml_items distFn e (urgencyBoost signals ngoNode) ngoNode warehouses (requestID r) d
          (items r) (ms_allocations st1, ms_unused st1) = Inr (allocs, un')"
    and st': "st' = st1\<lparr> ms_allocations := allocs, ms_unused := un' \<rparr>"
    by (auto simp add: ml_request_def Let_def d_def [symmetric] st1_def [symmetric]
          split: sum.splits)
  have "\<forall>a\<in>set (ms_allocations st1). P a" using inv(2) a1 by simp
  from ml_items_inv [where I = I and P = P and Its = Its and distFn = distFn and e = e
      and warehouses = warehouses, OF step m its i1 this]
  show ?thesis by (simp add: st')
qed

lemma ml_requests_inv:
  assumes step: "\<And>boost ngoNode reqId d it un a un'. it \<in> Its \<Longrightarrow> I un \<Longrightarrow>
                   ml_item distFn e boost ngoNode warehouses reqId d it un = Inr (a, un')
                   \<Longrightarrow> I un' \<and> (\<forall>x. a = Some x \<longrightarrow> P x)"
    and plan: "\<And>reason now skippedAt pst. I (fst pst) \<Longrightarrow>
       I (fst (planner_run_or_skip planner opts clock (plannerTuning opts e) warehouses reason
                 now skippedAt pst))"
    and run: "ml_requests distFn planner clock e opts signals ngoOrgs warehouses ngos rs st
                = Inr st'"
    and its: "\<forall>r\<in>set rs. set (items r) \<subseteq> Its"
    and inv: "I (ms_unused st)" "\<forall>a\<in>set (ms_allocations st). P a"
  shows "I (ms_unused st') \<and> (\<forall>a\<in>set (ms_allocations st'). P a)"
  using run its inv
proof (induction rs arbitrary: st)
  case Nil
  then show ?case by simp
next
  case (Cons r rs)
  from Cons.prems(1) obtain st1 where
    1: "ml_request distFn planner clock e opts signals ngoOrgs warehouses ngos r st = Inr st1"
    and 2: "ml_requests distFn planner clock e opts signals ngoOrgs warehouses ngos rs st1
              = Inr st'"
    by (auto split: sum.splits)
  have r: "set (items r) \<subseteq> Its" and rest: "\<forall>r\<in>set rs. set (items r) \<subseteq> Its"
    using Cons.prems(2) by simp_all
  from ml_request_inv [where I = I and P = P and Its = Its and distFn = distFn and e = e
      and warehouses = warehouses, OF step plan 1 r Cons.prems(3,4)]
  have "I (ms_unused st1)" "\<forall>a\<in>set (ms_allocations st1). P a" by simp_all
  from Cons.IH [OF 2 rest this] show ?case .
qed

lemma allocateML_inv:
  assumes step: "\<And>boost ngoNode reqId d it un a un'. it \<in> Its \<Longrightarrow> I un \<Longrightarrow>
                   ml_item distFn e boost ngoNode warehouses reqId d it un = Inr (a, un')
                   \<Longrightarrow> I un' \<and> (\<forall>x. a = Some x \<longrightarrow> P x)"
    and plan: "\<And>reason now skippedAt pst. I (fst pst) \<Longrightarrow>
       I (fst (planner_run_or_skip planner opts clock (plannerTuning opts e) warehouses reason
                 now skippedAt pst))"
    and run: "allocateML_with distFn mlResp planner clock e ngoOrgs requests batches
                warehouses ngos opts = Inr (allocations, dbg)"
    and its: "\<forall>r\<in>set requests. set (items r) \<subseteq> Its"
    and inv: "I batches"
  shows "\<forall>a\<in>set allocations. P a"
proof -
  define pst1 where "pst1 =
     (if canUseTransferPlanner opts e \<and> \<not> useTransferPlannerCron opts e
      then planner_run_or_skip planner opts clock (plannerTuning opts e) warehouses
             One_shot None (referenceDate opts) (batches, initial_debug opts e)
      else (batches, initial_debug opts e))"
  define rs where "rs =
     (if useTransferPlannerCron opts e
      then js_sort (\<lambda>a b. real_of_int (request_sort_key a - request_sort_key b)) requests
      else requests)"
  have i1: "I (fst pst1)"
    using plan [of "(batches, initial_debug opts e)"] inv by (simp add: pst1_def)
  have rs: "\<forall>r\<in>set rs. set (items r) \<subseteq> Its"
    using its by (simp add: rs_def set_js_sort)
  from run obtain st' where
    m: "ml_requests distFn planner clock e opts (regionalSignals mlResp) ngoOrgs warehouses
          ngos rs \<lparr> ms_allocations = [], ms_unused = fst pst1, ms_debug = snd pst1,
                    ms_cronRuns = 0, ms_nextCronRunAt = None \<rparr> = Inr st'"
    and a: "allocations = ms_allocations st'"
    by (auto simp add: allocateML_with_def Let_def pst1_def [symmetric] rs_def [symmetric]
          split: sum.splits)
  have "I (ms_unused st') \<and> (\<forall>a\<in>set (ms_allocations st'). P a)"
  proof (rule ml_requests_inv [where I = I and P = P and Its = Its and distFn = distFn
            and e = e and warehouses = warehouses and planner = planner and opts = opts
            and clock = clock and rs = rs and st' = st'])
    show "I un' \<and> (\<forall>x. a = Some x \<longrightarrow> P x)"
      if "it \<in> Its" "I un"
        "ml_item distFn e boost ngoNode warehouses reqId d it un = Inr (a, un')"
      for boost ngoNode reqId d it un a un'
      using that by (rule step)
    show "I (fst (planner_run_or_skip planner opts clock (plannerTuning opts e) warehouses
                    reason now skippedAt pst))"
      if "I (fst pst)" for reason now skippedAt pst
      using that by (rule plan)
    show "ml_requests distFn planner clock e opts (regionalSignals mlResp) ngoOrgs warehouses
          ngos rs \<lparr> ms_allocations = [], ms_unused = fst pst1, ms_debug = snd pst1,
                    ms_cronRuns = 0, ms_nextCronRunAt = None \<rparr> = Inr st'"
      by (rule m)
    show "\<forall>r\<in>set rs. set (items r) \<subseteq> Its" by (rule rs)
    show "I (ms_unused \<lparr> ms_allocations = [], ms_unused = fst pst1, ms_debug = snd pst1,
                    ms_cronRuns = 0, ms_nextCronRunAt = None \<rparr>)"
      using i1 by simp
    show "\<forall>a\<in>set (ms_allocations \<lparr> ms_allocations = [], ms_unused = fst pst1,
                    ms_debug = snd pst1, ms_cronRuns = 0, ms_nextCronRunAt = None \<rparr>). P a"
      by simp
  qed
  then show ?thesis by (simp add: a)
qed

lemma ml_items_no_error:
  "\<exists>res. ml_items distFn e boost ngoNode warehouses reqId d its st = Inr res"
proof (induction its arbitrary: st)
  case Nil
  then show ?case by simp
next
  case (Cons it its)
  obtain allocs un where st: "st = (allocs, un)" by (cases st)
  from ml_item_no_error [of distFn e boost ngoNode warehouses reqId d it un] obtain a un1 where
    "ml_item distFn e boost ngoNode warehouses reqId d it un = Inr (a, un1)"
    by (metis surj_pair)
  with Cons.IH st show ?case by simp
qed

lemma ml_request_no_error:
  "\<exists>st'. ml_request distFn planner clock e opts signals ngoOrgs warehouses ngos r st = Inr st'"
proof (cases "find_ngo_node ngoOrgs ngos r")
  case None
  then show ?thesis by (simp add: ml_request_def)
next
  case (Some ngoNode)
  define d where "d = ml_dispatch_time opts clock r"
  define st1 where "st1 =
     (case cronHours opts e of
        Some hours \<Rightarrow>
          if canUseTransferPlanner opts e
          then cron_step planner opts clock e warehouses hours d st else st
      | None \<Rightarrow> st)"
  from ml_items_no_error obtain res where
    "ml_items distFn e (urgencyBoost signals ngoNode) ngoNode warehouses (requestID r) d
       (items r) (ms_allocations st1, ms_unused st1) = Inr res"
    by blast
  then show ?thesis
    using Some
    by (cases res) (simp add: ml_request_def Let_def d_def [symmetric] st1_def [symmetric])
qed

lemma ml_requests_no_error:
  "\<exists>st'. ml_requests distFn planner clock e opts signals ngoOrgs warehouses ngos rs st = Inr st'"
proof (induction rs arbitrary: st)
  case Nil
  then show ?case by simp
next
  case (Cons r rs)
  from ml_request_no_error obtain st1 where
    "ml_request distFn planner clock e opts signals ngoOrgs warehouses ngos r st = Inr st1"
    by blast
  with Cons.IH [of st1] show ?case by simp
qed

lemma allocateML_no_error:
  "\<exists>allocations dbg.
     allocateML_with distFn mlResp planner clock e ngoOrgs requests batches warehouses ngos opts
       = Inr (allocations, dbg)"
proof -
  define pst1 where "pst1 =
     (if canUseTransferPlanner opts e \<and> \<not> useTransferPlannerCron opts e
      then planner_run_or_skip planner opts clock (plannerTuning opts e) warehouses
             One_shot None (referenceDate opts) (batches, initial_debug opts e)
      else (batches, initial_debug opts e))"
  define rs where "rs =
     (if useTransferPlannerCron opts e
      then js_sort (\<lambda>a b. real_of_int (request_sort_key a - request_sort_key b)) requests
      else requests)"
  from ml_requests_no_error obtain st' where
    "ml_requests distFn planner clock e opts (regionalSignals mlResp) ngoOrgs warehouses
          ngos rs \<lparr> ms_allocations = [], ms_unused = fst pst1, ms_debug = snd pst1,
                    ms_cronRuns = 0, ms_nextCronRunAt = None \<rparr> = Inr st'"
    by blast
  then show ?thesis
    by (simp add: allocateML_with_def Let_def pst1_def [symmetric] rs_def [symmetric])
qed

text \<open>What holds of every allocation record, whatever the inventory.\<close>

lemma regular_item_record:
  assumes "regular_item byDistance reqId d it un = Inr (Some a, un')"
  shows "0 < allocated_kg a \<and> alloc_required_kg a = required_kg it
         \<and> (is_double (required_kg it) \<longrightarrow> allocated_kg a \<le> alloc_required_kg a)"
proof -
  from regular_item_Some [OF assms] obtain w km where
    src: "regular_source byDistance un (item_foodType it) d = Some (w, km)" and
    aeq: "a = \<lparr> requestId = reqId, alloc_foodType = item_foodType it,
             alloc_required_kg = required_kg it,
             allocated_kg = js_sub (required_kg it)
               (leftover (regular_available un (item_foodType it) (nid w) d)
                  (required_kg it)),
             alloc_warehouse = nid w, warehouseName = nname w, distance_km = km,
             alloc_batches = map (used_entry stored_freshness)
               (allot (regular_available un (item_foodType it) (nid w) d) (required_kg it)),
             strategy = ''regular'', alloc_dispatchTime = d \<rparr>"
    and pos: "0 < js_sub (required_kg it)
               (leftover (regular_available un (item_foodType it) (nid w) d)
                  (required_kg it))"
    by (elim exE conjE)
  let ?av = "regular_available un (item_foodType it) (nid w) d"
  have req: "0 \<le> required_kg it"
  proof (rule ccontr)
    assume "\<not> 0 \<le> required_kg it"
    then have "leftover ?av (required_kg it) = required_kg it" by (cases ?av) simp_all
    with pos show False by (simp add: js_sub_def round_double_0)
  qed
  have "js_sub (required_kg it) (leftover ?av (required_kg it)) \<le> required_kg it"
    if "is_double (required_kg it)"
    using req that by (rule allocated_le_required)
  with pos show ?thesis
    by (simp add: aeq)
qed

lemma ml_item_record:
  assumes "ml_item distFn e boost ngoNode warehouses reqId d it un = Inr (Some a, un')"
  shows "(0 \<le> required_kg it \<and> is_double (required_kg it) \<longrightarrow>
            allocated_kg a \<le> alloc_required_kg a)
         \<and> alloc_required_kg a = required_kg it"
proof -
  from ml_item_Some [OF assms] obtain wh where
    aeq: "a = \<lparr> requestId = reqId, alloc_foodType = item_foodType it,
             alloc_required_kg = required_kg it,
             allocated_kg = js_sub (required_kg it)
               (leftover (map sc_batch (fst (tiered e (candidateBatches un (item_foodType it)
                   (nid wh) d (deliveryTime d (distFn ngoNode wh)))))) (required_kg it)),
             alloc_warehouse = nid wh, warehouseName = nname wh,
             distance_km = distFn ngoNode wh,
             alloc_batches = map (used_entry (\<lambda>b. calculateFreshnessPct b d 25))
               (allot (map sc_batch (fst (tiered e (candidateBatches un (item_foodType it)
                   (nid wh) d (deliveryTime d (distFn ngoNode wh)))))) (required_kg it)),
             strategy = ''ml'', alloc_dispatchTime = d \<rparr>"
    by (elim exE conjE)
  show ?thesis
    using allocated_le_required
            [of "required_kg it" "map sc_batch (fst (tiered e (candidateBatches un
               (item_foodType it) (nid wh) d (deliveryTime d (distFn ngoNode wh)))))"]
    by (simp add: aeq)
qed

section \<open>Example runs\<close>

text \<open>A run of the scored allocator on one request with one line item, without planner.\<close>

lemma allocateML_single:
  assumes "find_ngo_node ngoOrgs ngos r = Some ngoNode"
    and "cronHours opts e = None" and "\<not> canUseTransferPlanner opts e"
    and "items r = [it]"
    and "ml_item distFn e (urgencyBoost (regionalSignals mlResp) ngoNode) ngoNode warehouses
           (requestID r) (ml_dispatch_time opts clock r) it batches = Inr (a, un')"
  shows "allocateML_with distFn mlResp planner clock e ngoOrgs [r] batches warehouses ngos opts
         = Inr ((case a of None \<Rightarrow> [] | Some x \<Rightarrow> [x]), initial_debug opts e)"
  using assms
  by (simp add: allocateML_with_def useTransferPlannerCron_def ml_request_def Let_def)

lemma example_find_ngo:
  "find_ngo_node example_orgs [example_ngo] (mk_request ''R1'' ''org1'' ''rice'' kg t)
   = Some example_ngo"
  by (simp add: find_ngo_node_def example_orgs_def example_ngo_def mk_request_def mk_node_def)

lemma example_no_planner:
  "cronHours no_options no_env = None" "\<not> canUseTransferPlanner no_options no_env"
  by (simp_all add: cronHours_def canUseTransferPlanner_def no_options_def no_env_def
        or_else_def)

lemma example_request:
  "items (mk_request ''R1'' ''org1'' ''rice'' kg t) = [rice kg]"
  "requestID (mk_request ''R1'' ''org1'' ''rice'' kg t) = ''R1''"
  "ml_dispatch_time no_options clock (mk_request ''R1'' ''org1'' ''rice'' kg t) = t"
  by (simp_all add: mk_request_def rice_def ml_dispatch_time_def clamp_dispatch_def
        request_time_def no_options_def)

lemma example_candidates:
  "allWarehouseCandidates example_distance no_env example_ngo two_warehouses
   = [(mk_node ''A'' ''WA'' NaN, 10)]"
  by code_simp

lemma example_delivery: "deliveryTime 0 10 = 900000"
  by code_simp

lemma scenario_tier:
  "tiered no_env (candidateBatches scenario_batches ''rice'' ''A'' 0 900000)
   = (scenario_ranked, False, False)"
  by code_simp

lemma empty_tier:
  "tiered no_env (candidateBatches empty_batches ''rice'' ''A'' 0 900000)
   = (empty_ranked, False, False)"
  by code_simp

text \<open>With a single candidate warehouse, that warehouse wins whatever its score.\<close>

lemma single_candidate_choose_best:
  assumes cands: "allWarehouseCandidates distFn e ngoNode warehouses = [(wh, km)]"
    and tier: "tiered e (candidateBatches un (item_foodType it) (nid wh) d (deliveryTime d km))
               = (ranked, flags)"
    and ne: "ranked \<noteq> []" and req: "required_kg it \<noteq> 0"
  shows "choose_best distFn e boost ngoNode warehouses it d un = Some (wh, ranked)"
proof -
  let ?B = "\<lparr> bestScore = Some (candidate_score e boost (required_kg it) km (ranked, flags)),
              bestWarehouse = Some wh, bestBatches = ranked,
              bestFulfillment = fulfillmentRatio ranked (required_kg it) \<rparr>"
  let ?I = "if km \<le> maxPreferredDistanceKm e then ?B else no_best"
  have prim: "take (nat \<lfloor>max 1 (topKWarehouses e)\<rfloor>) [(wh, km)] = [(wh, km)]"
  proof -
    have "1 \<le> \<lfloor>max 1 (topKWarehouses e)\<rfloor>" by (simp add: le_floor_iff)
    then have "1 \<le> nat \<lfloor>max 1 (topKWarehouses e)\<rfloor>" by linarith
    then show ?thesis by simp
  qed
  have ev: "evaluate_candidate e boost it d un (wh, km) (no_best, no_best) = (?B, ?I)"
    unfolding evaluate_candidate_def Let_def fst_conv snd_conv tier
    using ne req by (simp add: beats_def no_best_def)
  have evs: "evaluateCandidates e boost it d un [(wh, km)] (no_best, no_best) = (?B, ?I)"
    unfolding evaluateCandidates_def by (simp only: fold_simps ev id_apply comp_apply)
  show ?thesis
    unfolding choose_best_def Let_def cands prim evs
    by (simp add: no_best_def)
qed

lemma scenario_choose_best:
  "choose_best example_distance no_env boost example_ngo two_warehouses (rice 100) 0
     scenario_batches = Some (mk_node ''A'' ''WA'' NaN, scenario_ranked)"
  by (rule single_candidate_choose_best [OF example_candidates])
     (simp_all add: rice_def mk_node_def example_delivery scenario_tier scenario_ranked_def)

lemma empty_choose_best:
  "choose_best example_distance no_env boost example_ngo two_warehouses (rice 100) 0
     empty_batches = Some (mk_node ''A'' ''WA'' NaN, empty_ranked)"
  by (rule single_candidate_choose_best [OF example_candidates])
     (simp_all add: rice_def mk_node_def example_delivery empty_tier empty_ranked_def)

lemma scenario_consume:
  "consume (\<lambda>b. calculateFreshnessPct b 0 25) (map sc_batch scenario_ranked) 100 []
     scenario_batches
   = Inr (40, [\<lparr> batchId = ''b1'', quantity = 60, freshness = 100 \<rparr>],
          [mk_batch ''b2'' ''rice'' 100 ''B'' (Some 48) (Some 0)])"
  by code_simp

lemma empty_consume:
  "consume (\<lambda>b. calculateFreshnessPct b 0 25) (map sc_batch empty_ranked) 100 []
     empty_batches
   = Inr (100, [\<lparr> batchId = ''b6'', quantity = 0, freshness = 100 \<rparr>], [])"
  by code_simp

lemma js_sub_examples: "js_sub 100 40 = 60" "js_sub 100 100 = 0" "js_sub (- 5) (- 5) = 0"
  by code_simp+

lemma scenario_ml_item:
  "ml_item example_distance no_env boost example_ngo two_warehouses ''R1'' 0 (rice 100)
     scenario_batches
   = Inr (Some (ml_allocation 60 ''b1''),
          [mk_batch ''b2'' ''rice'' 100 ''B'' (Some 48) (Some 0)])"
  unfolding ml_item_def scenario_choose_best
  by (simp add: rice_def scenario_consume ml_allocation_def mk_node_def example_distance_def
        js_sub_examples)

lemma empty_ml_item:
  "ml_item example_distance no_env boost example_ngo two_warehouses ''R1'' 0 (rice 100)
     empty_batches
   = Inr (Some (ml_allocation 0 ''b6''), [])"
  unfolding ml_item_def empty_choose_best
  by (simp add: rice_def empty_consume ml_allocation_def mk_node_def example_distance_def
        js_sub_examples)

lemma scenario_ml_run:
  "allocateML_with example_distance mlResp planner clock no_env example_orgs
     [mk_request ''R1'' ''org1'' ''rice'' 100 0] scenario_batches two_warehouses [example_ngo]
     no_options
   = Inr ([ml_allocation 60 ''b1''], initial_debug no_options no_env)"
  using allocateML_single [OF example_find_ngo example_no_planner example_request(1),
          where distFn = example_distance and mlResp = mlResp and warehouses = two_warehouses
            and batches = scenario_batches and clock = clock and planner = planner]
  by (simp add: example_request scenario_ml_item)

lemma empty_ml_run:
  "allocateML_with example_distance mlResp planner clock no_env example_orgs
     [mk_request ''R1'' ''org1'' ''rice'' 100 0] empty_batches two_warehouses [example_ngo]
     no_options
   = Inr ([ml_allocation 0 ''b6''], initial_debug no_options no_env)"
  using allocateML_single [OF example_find_ngo example_no_planner example_request(1),
          where distFn = example_distance and mlResp = mlResp and warehouses = two_warehouses
            and batches = empty_batches and clock = clock and planner = planner]
  by (simp add: example_request empty_ml_item)

lemma scenario_regular_run:
  "allocateRegular_with example_distance 0 example_orgs
     [mk_request ''R1'' ''org1'' ''rice'' 100 0] scenario_batches two_warehouses [example_ngo]
     no_options = Inr [scenario_allocation]"
  by code_simp

lemma empty_regular_run:
  "allocateRegular_with example_distance 0 example_orgs
     [mk_request ''R1'' ''org1'' ''rice'' 100 0] empty_batches two_warehouses [example_ngo]
     no_options = Inr []"
  by code_simp

section \<open>Bounds on the allocated quantity\<close>

lemma scenario_regular_item:
  "regular_item (warehousesByDistance example_distance example_ngo two_warehouses) ''R1'' 0
     (rice 100) scenario_batches
   = Inr (Some scenario_allocation, [mk_batch ''b2'' ''rice'' 100 ''B'' (Some 48) (Some 0)])"
  by code_simp

lemma allot_record:
  assumes sub: "set bs \<subseteq> set un"
  shows "\<exists>cs. set cs \<subseteq> set un
           \<and> map batchId (map (used_entry fr) (allot bs r)) = map bid cs
           \<and> list_all2 (\<lambda>u b. quantity u \<le> quantity_kg b) (map (used_entry fr) (allot bs r)) cs
           \<and> (whole r \<and> (\<forall>b\<in>set un. whole (quantity_kg b) \<and> 0 \<le> quantity_kg b) \<longrightarrow>
                js_sub r (leftover bs r)
                  = sum_list (map quantity (map (used_entry fr) (allot bs r)))
                \<and> js_sub r (leftover bs r) \<le> sum_list (map quantity_kg cs))"
proof -
  define cs where "cs = take (length (allot bs r)) bs"
  have 1: "set cs \<subseteq> set un"
    using sub set_take_subset [of "length (allot bs r)" bs] by (auto simp add: cs_def)
  have 2: "map batchId (map (used_entry fr) (allot bs r)) = map bid cs"
    unfolding cs_def by (rule map_batchId_used_entry)
  have 3: "list_all2 (\<lambda>u b. quantity u \<le> quantity_kg b) (map (used_entry fr) (allot bs r)) cs"
    using allot_all_le_quantity [of bs r]
    by (simp add: cs_def list_all2_map1 used_entry_def)
  have 4: "js_sub r (leftover bs r) = sum_list (map quantity (map (used_entry fr) (allot bs r)))
           \<and> js_sub r (leftover bs r) \<le> sum_list (map quantity_kg cs)"
    if w: "whole r" and q: "\<forall>b\<in>set un. whole (quantity_kg b) \<and> 0 \<le> quantity_kg b"
  proof -
    have "\<forall>b\<in>set bs. whole (quantity_kg b) \<and> 0 \<le> quantity_kg b"
      using q sub by auto
    from allocated_whole [OF w this]
    have e: "js_sub r (leftover bs r) = sum_list (map snd (allot bs r))" .
    show ?thesis
      unfolding e sum_quantity_used_entry cs_def
      using allot_sum_le_quantities [of bs r] by simp
  qed
  from 1 2 3 4 show ?thesis by blast
qed

text \<open>
  C7 (amended).  For a line item whose required quantity is not negative, \<open>allocated_kg\<close> of
  the allocation record of either allocator is at most the required quantity (quantities
  being doubles).  The entries of the record refer to batches of the inventory, and each
  takes no more than its batch holds.  \<open>allocated_kg\<close> is the required quantity minus what
  the loop leaves of it, computed in floating point: it is the sum of the quantities of
  the entries, and so at most the summed quantity of the batches referred to, when the
  required quantity and the quantities of the inventory are whole numbers, for which
  every subtraction is exact.
\<close>

theorem allocation_bound:
  "(allocateRegular_with distFn now ngoOrgs requests batches warehouses ngos opts
      = Inr allocations
      \<and> (\<forall>r\<in>set requests. \<forall>it\<in>set (items r). is_double (required_kg it)) \<longrightarrow>
      (\<forall>a\<in>set allocations. allocated_kg a \<le> alloc_required_kg a))
   \<and> (allocateML_with distFn mlResp planner clock e ngoOrgs requests batches warehouses ngos
        opts = Inr (mlAllocations, dbg)
       \<and> (\<forall>r\<in>set requests. \<forall>it\<in>set (items r).
             0 \<le> required_kg it \<and> is_double (required_kg it)) \<longrightarrow>
      (\<forall>a\<in>set mlAllocations. allocated_kg a \<le> alloc_required_kg a))
   \<and> (regular_item byDistance reqId d it un = Inr (Some a, un') \<longrightarrow>
        (\<exists>bs. set bs \<subseteq> set un \<and> map batchId (alloc_batches a) = map bid bs
           \<and> list_all2 (\<lambda>u b. quantity u \<le> quantity_kg b) (alloc_batches a) bs
           \<and> (whole (required_kg it)
                \<and> (\<forall>b\<in>set un. whole (quantity_kg b) \<and> 0 \<le> quantity_kg b) \<longrightarrow>
                allocated_kg a = sum_list (map quantity (alloc_batches a))
                \<and> allocated_kg a \<le> sum_list (map quantity_kg bs))))
   \<and> (ml_item distFn e boost ngoNode warehouses reqId d it un = Inr (Some a, un') \<longrightarrow>
        (\<exists>bs. set bs \<subseteq> set un \<and> map batchId (alloc_batches a) = map bid bs
           \<and> list_all2 (\<lambda>u b. quantity u \<le> quantity_kg b) (alloc_batches a) bs
           \<and> (whole (required_kg it)
                \<and> (\<forall>b\<in>set un. whole (quantity_kg b) \<and> 0 \<le> quantity_kg b) \<longrightarrow>
                allocated_kg a = sum_list (map quantity (alloc_batches a))
                \<and> allocated_kg a \<le> sum_list (map quantity_kg bs))))"
proof -
  have reg: "\<forall>a\<in>set allocations. allocated_kg a \<le> alloc_required_kg a"
    if h: "allocateRegular_with distFn now ngoOrgs requests batches warehouses ngos opts
               = Inr allocations
           \<and> (\<forall>r\<in>set requests. \<forall>it\<in>set (items r). is_double (required_kg it))"
  proof (rule allocateRegular_inv
           [where I = "\<lambda>un. True" and Its = "{it. is_double (required_kg it)}"
              and distFn = distFn and warehouses = warehouses, OF _ h [THEN conjunct1]])
    show "True \<and> (\<forall>x. a = Some x \<longrightarrow> allocated_kg x \<le> alloc_required_kg x)"
      if "it \<in> {it. is_double (required_kg it)}" "True"
        "regular_item (warehousesByDistance distFn ngoNode warehouses) reqId d it un
            = Inr (a, un')"
      for ngoNode reqId d it un a un'
    proof -
      have "allocated_kg x \<le> alloc_required_kg x" if "a = Some x" for x
      proof -
        from that \<open>regular_item (warehousesByDistance distFn ngoNode warehouses) reqId d it un
            = Inr (a, un')\<close>
        have "regular_item (warehousesByDistance distFn ngoNode warehouses) reqId d it
                        un = Inr (Some x, un')" by simp
        from regular_item_record [OF this] \<open>it \<in> {it. is_double (required_kg it)}\<close>
        show ?thesis by simp
      qed
      then show ?thesis by blast
    qed
    show "\<forall>r\<in>set requests. set (items r) \<subseteq> {it. is_double (required_kg it)}"
      using h by auto
  qed simp
  have ml: "\<forall>a\<in>set mlAllocations. allocated_kg a \<le> alloc_required_kg a"
    if h: "allocateML_with distFn mlResp planner clock e ngoOrgs requests batches warehouses
               ngos opts = Inr (mlAllocations, dbg)
           \<and> (\<forall>r\<in>set requests. \<forall>it\<in>set (items r).
                 0 \<le> required_kg it \<and> is_double (required_kg it))"
  proof (rule allocateML_inv
           [where I = "\<lambda>un. True"
              and Its = "{it. 0 \<le> required_kg it \<and> is_double (required_kg it)}"
              and distFn = distFn
              and warehouses = warehouses and e = e and planner = planner and opts = opts
              and clock = clock, OF _ _ h [THEN conjunct1]])
    show "True \<and> (\<forall>x. a = Some x \<longrightarrow> allocated_kg x \<le> alloc_required_kg x)"
      if "it \<in> {it. 0 \<le> required_kg it \<and> is_double (required_kg it)}" "True"
        "ml_item distFn e boost ngoNode warehouses reqId d it un = Inr (a, un')"
      for boost ngoNode reqId d it un a un'
    proof -
      have "allocated_kg x \<le> alloc_required_kg x" if "a = Some x" for x
      proof -
        from that \<open>ml_item distFn e boost ngoNode warehouses reqId d it un = Inr (a, un')\<close>
        have "ml_item distFn e boost ngoNode warehouses reqId d it un
                           = Inr (Some x, un')" by simp
        from ml_item_record [OF this]
          \<open>it \<in> {it. 0 \<le> required_kg it \<and> is_double (required_kg it)}\<close>
        show ?thesis by simp
      qed
      then show ?thesis by blast
    qed
    show "\<forall>r\<in>set requests. set (items r)
            \<subseteq> {it. 0 \<le> required_kg it \<and> is_double (required_kg it)}"
      using h by auto
  qed simp_all
  have ri: "\<exists>bs. set bs \<subseteq> set un \<and> map batchId (alloc_batches a) = map bid bs
           \<and> list_all2 (\<lambda>u b. quantity u \<le> quantity_kg b) (alloc_batches a) bs
           \<and> (whole (required_kg it)
                \<and> (\<forall>b\<in>set un. whole (quantity_kg b) \<and> 0 \<le> quantity_kg b) \<longrightarrow>
                allocated_kg a = sum_list (map quantity (alloc_batches a))
                \<and> allocated_kg a \<le> sum_list (map quantity_kg bs))"
    if h: "regular_item byDistance reqId d it un = Inr (Some a, un')"
  proof -
    from regular_item_Some [OF h] obtain w km where
      src: "regular_source byDistance un (item_foodType it) d = Some (w, km)" and
      aeq: "a = \<lparr> requestId = reqId, alloc_foodType = item_foodType it,
             alloc_required_kg = required_kg it,
             allocated_kg = js_sub (required_kg it)
               (leftover (regular_available un (item_foodType it) (nid w) d)
                  (required_kg it)),
             alloc_warehouse = nid w, warehouseName = nname w, distance_km = km,
             alloc_batches = map (used_entry stored_freshness)
               (allot (regular_available un (item_foodType it) (nid w) d) (required_kg it)),
             strategy = ''regular'', alloc_dispatchTime = d \<rparr>"
      and pos: "0 < js_sub (required_kg it)
               (leftover (regular_available un (item_foodType it) (nid w) d)
                  (required_kg it))"
      by (elim exE conjE)
    have "set (regular_available un (item_foodType it) (nid w) d) \<subseteq> set un"
      by (auto simp add: regular_available_set)
    from allot_record [OF this, of stored_freshness "required_kg it"]
    show ?thesis by (simp add: aeq)
  qed
  have mi: "\<exists>bs. set bs \<subseteq> set un \<and> map batchId (alloc_batches a) = map bid bs
           \<and> list_all2 (\<lambda>u b. quantity u \<le> quantity_kg b) (alloc_batches a) bs
           \<and> (whole (required_kg it)
                \<and> (\<forall>b\<in>set un. whole (quantity_kg b) \<and> 0 \<le> quantity_kg b) \<longrightarrow>
                allocated_kg a = sum_list (map quantity (alloc_batches a))
                \<and> allocated_kg a \<le> sum_list (map quantity_kg bs))"
    if h: "ml_item distFn e boost ngoNode warehouses reqId d it un = Inr (Some a, un')"
  proof -
    from ml_item_Some [OF h] obtain wh where
      wh: "wh \<in> set warehouses" and
      aeq: "a = \<lparr> requestId = reqId, alloc_foodType = item_foodType it,
             alloc_required_kg = required_kg it,
             allocated_kg = js_sub (required_kg it)
               (leftover (map sc_batch (fst (tiered e (candidateBatches un (item_foodType it)
                   (nid wh) d (deliveryTime d (distFn ngoNode wh)))))) (required_kg it)),
             alloc_warehouse = nid wh, warehouseName = nname wh,
             distance_km = distFn ngoNode wh,
             alloc_batches = map (used_entry (\<lambda>b. calculateFreshnessPct b d 25))
               (allot (map sc_batch (fst (tiered e (candidateBatches un (item_foodType it)
                   (nid wh) d (deliveryTime d (distFn ngoNode wh)))))) (required_kg it)),
             strategy = ''ml'', alloc_dispatchTime = d \<rparr>"
      by (elim exE conjE)
    let ?ranked = "map sc_batch (fst (tiered e (candidateBatches un (item_foodType it)
                   (nid wh) d (deliveryTime d (distFn ngoNode wh)))))"
    have "set ?ranked \<subseteq> set un"
      using ranked_mset [of e un "item_foodType it" "nid wh" d
                           "deliveryTime d (distFn ngoNode wh)"]
      by (metis set_mset_mono set_mset_mset)
    from allot_record [OF this, of "\<lambda>b. calculateFreshnessPct b d 25" "required_kg it"]
    show ?thesis by (simp add: aeq)
  qed
  show ?thesis
    by (intro conjI impI) (erule reg ml ri mi)+
qed

text \<open>
  In the second scenario both allocators take 60 kg of the 100 kg required from the
  batch of 60 kg at warehouse A.
\<close>

theorem allocation_bound_witness:
  "allocated_kg scenario_allocation \<le> alloc_required_kg scenario_allocation
   \<and> allocated_kg (ml_allocation 60 ''b1'') \<le> alloc_required_kg (ml_allocation 60 ''b1'')
   \<and> (\<exists>bs. set bs \<subseteq> set scenario_batches
         \<and> map batchId (alloc_batches scenario_allocation) = map bid bs
         \<and> list_all2 (\<lambda>u b. quantity u \<le> quantity_kg b) (alloc_batches scenario_allocation) bs
         \<and> allocated_kg scenario_allocation
             = sum_list (map quantity (alloc_batches scenario_allocation))
         \<and> allocated_kg scenario_allocation \<le> sum_list (map quantity_kg bs))
   \<and> (\<exists>bs. set bs \<subseteq> set scenario_batches
         \<and> map batchId (alloc_batches (ml_allocation 60 ''b1'')) = map bid bs
         \<and> list_all2 (\<lambda>u b. quantity u \<le> quantity_kg b)
             (alloc_batches (ml_allocation 60 ''b1'')) bs
         \<and> allocated_kg (ml_allocation 60 ''b1'')
             = sum_list (map quantity (alloc_batches (ml_allocation 60 ''b1'')))
         \<and> allocated_kg (ml_allocation 60 ''b1'') \<le> sum_list (map quantity_kg bs))"
proof -
  have d100: "is_double 100" by code_simp
  have dbl: "\<forall>r\<in>set [mk_request ''R1'' ''org1'' ''rice'' 100 0].
               \<forall>it\<in>set (items r). is_double (required_kg it)"
    by (simp add: mk_request_def d100)
  have nn: "\<forall>r\<in>set [mk_request ''R1'' ''org1'' ''rice'' 100 0].
              \<forall>it\<in>set (items r). 0 \<le> required_kg it \<and> is_double (required_kg it)"
    by (simp add: mk_request_def d100)
  have wh: "whole (required_kg (rice 100))
            \<and> (\<forall>b\<in>set scenario_batches. whole (quantity_kg b) \<and> 0 \<le> quantity_kg b)"
    by (simp add: rice_def scenario_batches_def mk_batch_def whole_def)
  note t = allocation_bound
     [where distFn = example_distance and now = 0 and ngoOrgs = example_orgs
        and requests = "[mk_request ''R1'' ''org1'' ''rice'' 100 0]"
        and batches = scenario_batches and warehouses = two_warehouses
        and ngos = "[example_ngo]" and opts = no_options
        and allocations = "[scenario_allocation]" and mlResp = Predict_failed
        and planner = "\<lambda>n bs. Planner_answer None" and clock = 0 and e = no_env
        and mlAllocations = "[ml_allocation 60 ''b1'']"
        and dbg = "initial_debug no_options no_env"
        and byDistance = "warehousesByDistance example_distance example_ngo two_warehouses"
        and reqId = "''R1''" and d = 0 and it = "rice 100" and un = scenario_batches
        and un' = "[mk_batch ''b2'' ''rice'' 100 ''B'' (Some 48) (Some 0)]"
        and boost = 1 and ngoNode = example_ngo]
  note t1 = t [where a = scenario_allocation, THEN conjunct1, THEN mp,
               OF conjI [OF scenario_regular_run dbl]]
  note t2 = t [where a = scenario_allocation, THEN conjunct2, THEN conjunct1, THEN mp,
               OF conjI [OF scenario_ml_run nn]]
  note t3 = t [where a = scenario_allocation, THEN conjunct2, THEN conjunct2, THEN conjunct1,
               THEN mp, OF scenario_regular_item]
  note t4 = t [where a = "ml_allocation 60 ''b1''", THEN conjunct2, THEN conjunct2,
               THEN conjunct2, THEN mp, OF scenario_ml_item]
  from t1 have 1: "allocated_kg scenario_allocation \<le> alloc_required_kg scenario_allocation"
    by simp
  from t2 have 2: "allocated_kg (ml_allocation 60 ''b1'')
                     \<le> alloc_required_kg (ml_allocation 60 ''b1'')"
    by simp
  from t3 wh have 3: "\<exists>bs. set bs \<subseteq> set scenario_batches
         \<and> map batchId (alloc_batches scenario_allocation) = map bid bs
         \<and> list_all2 (\<lambda>u b. quantity u \<le> quantity_kg b) (alloc_batches scenario_allocation) bs
         \<and> allocated_kg scenario_allocation
             = sum_list (map quantity (alloc_batches scenario_allocation))
         \<and> allocated_kg scenario_allocation \<le> sum_list (map quantity_kg bs)"
    by blast
  from t4 wh have 4: "\<exists>bs. set bs \<subseteq> set scenario_batches
         \<and> map batchId (alloc_batches (ml_allocation 60 ''b1'')) = map bid bs
         \<and> list_all2 (\<lambda>u b. quantity u \<le> quantity_kg b)
             (alloc_batches (ml_allocation 60 ''b1'')) bs
         \<and> allocated_kg (ml_allocation 60 ''b1'')
             = sum_list (map quantity (alloc_batches (ml_allocation 60 ''b1'')))
         \<and> allocated_kg (ml_allocation 60 ''b1'') \<le> sum_list (map quantity_kg bs)"
    by blast
  from 1 2 3 4 show ?thesis by (intro conjI)
qed

text \<open>A run of the scored allocator with a negative required quantity.\<close>

lemma negative_choose_best:
  "choose_best example_distance no_env boost example_ngo two_warehouses (rice (- 5)) 0
     scenario_batches = Some (mk_node ''A'' ''WA'' NaN, scenario_ranked)"
  by (rule single_candidate_choose_best [OF example_candidates])
     (simp_all add: rice_def mk_node_def example_delivery scenario_tier scenario_ranked_def)

lemma negative_consume:
  "consume (\<lambda>b. calculateFreshnessPct b 0 25) (map sc_batch scenario_ranked) (- 5) []
     scenario_batches = Inr (- 5, [], scenario_batches)"
  by (simp add: scenario_ranked_def)

lemma negative_ml_item:
  "ml_item example_distance no_env boost example_ngo two_warehouses ''R1'' 0 (rice (- 5))
     scenario_batches
   = Inr (Some \<lparr> requestId = ''R1'', alloc_foodType = ''rice'', alloc_required_kg = - 5,
                 allocated_kg = 0, alloc_warehouse = ''A'', warehouseName = ''WA'',
                 distance_km = 10, alloc_batches = [], strategy = ''ml'',
                 alloc_dispatchTime = 0 \<rparr>, scenario_batches)"
  unfolding ml_item_def negative_choose_best
  by (simp add: rice_def negative_consume mk_node_def example_distance_def js_sub_examples)

lemma negative_ml_run:
  "allocateML_with example_distance mlResp planner clock no_env example_orgs
     [mk_request ''R1'' ''org1'' ''rice'' (- 5) 0] scenario_batches two_warehouses [example_ngo]
     no_options
   = Inr ([\<lparr> requestId = ''R1'', alloc_foodType = ''rice'', alloc_required_kg = - 5,
             allocated_kg = 0, alloc_warehouse = ''A'', warehouseName = ''WA'',
             distance_km = 10, alloc_batches = [], strategy = ''ml'',
             alloc_dispatchTime = 0 \<rparr>], initial_debug no_options no_env)"
  using allocateML_single [OF example_find_ngo example_no_planner example_request(1),
          where distFn = example_distance and mlResp = mlResp and warehouses = two_warehouses
            and batches = scenario_batches and clock = clock and planner = planner]
  by (simp add: example_request negative_ml_item)

text \<open>
  C7 as stated fails in two ways.  For a required quantity of -5 kg the scored allocator
  records an allocation of 0 kg, which is more than required.  For 32.3 kg required and
  a batch of 9.6 kg the baseline takes the whole batch and records
  \<open>32.3 - (32.3 - 9.6)\<close>, which in floating point is 9.600000000000001 kg, more than the
  batch holds.
\<close>

theorem allocation_bound_counterexample:
  "allocateML_with example_distance Predict_failed (\<lambda>n bs. Planner_answer None) 0 no_env
     example_orgs [mk_request ''R1'' ''org1'' ''rice'' (- 5) 0] scenario_batches two_warehouses
     [example_ngo] no_options
   = Inr ([\<lparr> requestId = ''R1'', alloc_foodType = ''rice'', alloc_required_kg = - 5,
             allocated_kg = 0, alloc_warehouse = ''A'', warehouseName = ''WA'',
             distance_km = 10, alloc_batches = [], strategy = ''ml'',
             alloc_dispatchTime = 0 \<rparr>], initial_debug no_options no_env)
   \<and> regular_item (warehousesByDistance example_distance example_ngo two_warehouses) ''R1'' 0
       (rice (round_double (323 / 10))) decimal_batches
     = Inr (Some \<lparr> requestId = ''R1'', alloc_foodType = ''rice'',
                   alloc_required_kg = round_double (323 / 10),
                   allocated_kg = 1351079888211149 / 2 ^ 47, alloc_warehouse = ''A'',
                   warehouseName = ''WA'', distance_km = 10,
                   alloc_batches =
                     [\<lparr> batchId = ''b7'', quantity = 5404319552844595 / 2 ^ 49,
                        freshness = 100 \<rparr>],
                   strategy = ''regular'', alloc_dispatchTime = 0 \<rparr>, [])
   \<and> round_double (96 / 10) = 5404319552844595 / 2 ^ 49
   \<and> (5404319552844595 / 2 ^ 49 :: real) < 1351079888211149 / 2 ^ 47"
proof -
  have 2: "regular_item (warehousesByDistance example_distance example_ngo two_warehouses)
       ''R1'' 0 (rice (round_double (323 / 10))) decimal_batches
     = Inr (Some \<lparr> requestId = ''R1'', alloc_foodType = ''rice'',
                   alloc_required_kg = round_double (323 / 10),
                   allocated_kg = 1351079888211149 / 2 ^ 47, alloc_warehouse = ''A'',
                   warehouseName = ''WA'', distance_km = 10,
                   alloc_batches =
                     [\<lparr> batchId = ''b7'', quantity = 5404319552844595 / 2 ^ 49,
                        freshness = 100 \<rparr>],
                   strategy = ''regular'', alloc_dispatchTime = 0 \<rparr>, [])"
    by code_simp
  have 3: "round_double (96 / 10) = 5404319552844595 / 2 ^ 49"
    by code_simp
  have 4: "(5404319552844595 / 2 ^ 49 :: real) < 1351079888211149 / 2 ^ 47"
    by simp
  from negative_ml_run 2 3 4 show ?thesis by (intro conjI)
qed

text \<open>
  C10.  Every allocation record of \<open>allocateRegular\<close> has a positive \<open>allocated_kg\<close>: a
  line item of which nothing is allocated yields no record.  \<open>allocateML\<close> has no such
  guard: from a winning warehouse whose batch has the quantity 0 it records an allocation
  of 0 kg, where the baseline records nothing.
\<close>

theorem baseline_allocations_positive:
  "(allocateRegular_with distFn now ngoOrgs requests batches warehouses ngos opts
      = Inr allocations \<longrightarrow> (\<forall>a\<in>set allocations. 0 < allocated_kg a))
   \<and> (regular_item byDistance reqId d it un = Inr (Some a, un') \<longrightarrow> 0 < allocated_kg a)
   \<and> allocateRegular_with example_distance 0 example_orgs
        [mk_request ''R1'' ''org1'' ''rice'' 100 0] empty_batches two_warehouses [example_ngo]
        no_options = Inr []
   \<and> allocateML_with example_distance Predict_failed (\<lambda>n bs. Planner_answer None) 0 no_env
        example_orgs [mk_request ''R1'' ''org1'' ''rice'' 100 0] empty_batches two_warehouses
        [example_ngo] no_options
      = Inr ([ml_allocation 0 ''b6''], initial_debug no_options no_env)
   \<and> allocated_kg (ml_allocation 0 ''b6'') = 0"
proof -
  have reg: "\<forall>a\<in>set allocations. 0 < allocated_kg a"
    if run: "allocateRegular_with distFn now ngoOrgs requests batches warehouses ngos opts
               = Inr allocations"
  proof (rule allocateRegular_inv
           [where I = "\<lambda>un. True" and Its = UNIV and distFn = distFn and warehouses = warehouses,
            OF _ run])
    show "True \<and> (\<forall>x. a = Some x \<longrightarrow> 0 < allocated_kg x)"
      if "regular_item (warehousesByDistance distFn ngoNode warehouses) reqId d it un
            = Inr (a, un')"
      for ngoNode reqId d it un a un'
    proof -
      have "0 < allocated_kg x" if "a = Some x" for x
      proof -
        from that \<open>regular_item (warehousesByDistance distFn ngoNode warehouses) reqId d it un
            = Inr (a, un')\<close>
        have "regular_item (warehousesByDistance distFn ngoNode warehouses) reqId d it
                        un = Inr (Some x, un')" by simp
        from regular_item_record [OF this] show ?thesis by simp
      qed
      then show ?thesis by blast
    qed
  qed simp_all
  have item: "0 < allocated_kg a"
    if "regular_item byDistance reqId d it un = Inr (Some a, un')"
    using regular_item_record [OF that] by simp
  have z: "allocated_kg (ml_allocation 0 ''b6'') = 0"
    by (simp add: ml_allocation_def)
  show ?thesis
    by (intro conjI impI reg item empty_regular_run empty_ml_run z)
qed

theorem baseline_allocations_positive_witness:
  "allocateRegular_with example_distance 0 example_orgs
     [mk_request ''R1'' ''org1'' ''rice'' 100 0] scenario_batches two_warehouses [example_ngo]
     no_options = Inr [scenario_allocation]
   \<and> 0 < allocated_kg scenario_allocation"
proof -
  note t = baseline_allocations_positive
     [where distFn = example_distance and now = 0 and ngoOrgs = example_orgs
        and requests = "[mk_request ''R1'' ''org1'' ''rice'' 100 0]"
        and batches = scenario_batches and warehouses = two_warehouses
        and ngos = "[example_ngo]" and opts = no_options
        and allocations = "[scenario_allocation]"
        and byDistance = "warehousesByDistance example_distance example_ngo two_warehouses"
        and reqId = "''R1''" and d = 0 and it = "rice 100" and un = scenario_batches
        and a = scenario_allocation
        and un' = "[mk_batch ''b2'' ''rice'' 100 ''B'' (Some 48) (Some 0)]"]
  from t [THEN conjunct1, THEN mp, OF scenario_regular_run]
  have "0 < allocated_kg scenario_allocation" by simp
  moreover note t [THEN conjunct2, THEN conjunct1, THEN mp, OF scenario_regular_item]
  ultimately show ?thesis using scenario_regular_run by simp
qed

section \<open>Batches keep their lot\<close>

lemma kin_refl: "kin b b"
  by (simp add: kin_def)

lemma kin_trans: "kin a b \<Longrightarrow> kin b c \<Longrightarrow> kin a c"
  by (simp add: kin_def)

lemma kin_descends: "kin a b \<Longrightarrow> descends a b"
  by (simp add: kin_def descends_def)

lemma descends_refl: "descends b b"
  by (simp add: descends_def)

lemma descends_trans: "descends a b \<Longrightarrow> descends b c \<Longrightarrow> descends a c"
  by (auto simp add: descends_def)

lemma freshness_descends:
  "descends b b0 \<Longrightarrow> calculateFreshnessPct b t T = calculateFreshnessPct b0 t T"
  by (auto simp add: descends_def calculateFreshnessPct_def split: option.splits)

lemma set_splice1: "set (splice1 i xs) \<subseteq> set xs"
proof -
  have "set (take i xs) \<subseteq> set xs" "set (drop (Suc i) xs) \<subseteq> set xs"
    by (auto dest: in_set_takeD in_set_dropD)
  then show ?thesis by (simp add: splice1_def)
qed

lemma consume_kin:
  "consume fr bs remaining used un = Inr (remaining', used', un') \<Longrightarrow>
   \<forall>b'\<in>set un'. \<exists>b\<in>set un. kin b' b"
proof (induction bs arbitrary: remaining used un)
  case Nil
  then show ?case by (auto intro: kin_refl)
next
  case (Cons c cs)
  show ?case
  proof (cases "remaining \<le> 0")
    case True
    with Cons.prems show ?thesis by (auto intro: kin_refl)
  next
    case False
    let ?q = "min (quantity_kg c) remaining"
    let ?u = "used @ [\<lparr> batchId = bid c, quantity = ?q, freshness = fr c \<rparr>]"
    from Cons.prems False obtain un1 where
      rec: "consume fr cs (js_sub remaining ?q) ?u un1 = Inr (remaining', used', un')"
      and un1: "un1 = butlast un \<or> (\<exists>i. un1 = splice1 i un)
                \<or> (\<exists>i v. i < length un \<and> un1 = un[i := (un ! i)\<lparr>quantity_kg := v\<rparr>])"
    proof (cases "findIndex (\<lambda>x. bid x = bid c) un")
      case None
      with Cons.prems False that show ?thesis
        by (auto simp add: Let_def split: if_splits)
    next
      case (Some i)
      have "i < length un"
        using Some
      proof (induction un arbitrary: i)
        case Nil
        then show ?case by simp
      next
        case (Cons x xs)
        then show ?case by (auto split: if_splits)
      qed
      with Some Cons.prems False that show ?thesis
        by (auto simp add: Let_def split: if_splits)
    qed
    have step: "\<forall>b'\<in>set un1. \<exists>b\<in>set un. kin b' b"
    proof
      fix b' assume b': "b' \<in> set un1"
      from un1 consider "un1 = butlast un" | i where "un1 = splice1 i un"
        | i v where "i < length un" "un1 = un[i := (un ! i)\<lparr>quantity_kg := v\<rparr>]"
        by blast
      then show "\<exists>b\<in>set un. kin b' b"
      proof cases
        case 1
        with b' have "b' \<in> set un" by (auto dest: in_set_butlastD)
        then show ?thesis by (auto intro: kin_refl)
      next
        case 2
        with b' set_splice1 [of i un] have "b' \<in> set un" by auto
        then show ?thesis by (auto intro: kin_refl)
      next
        case 3
        from b' 3(2) have "b' \<in> set un \<or> b' = (un ! i)\<lparr>quantity_kg := v\<rparr>"
          by (auto dest: set_update_subset_insert [THEN subsetD])
        then show ?thesis
        proof
          assume "b' \<in> set un"
          then show ?thesis by (auto intro: kin_refl)
        next
          assume "b' = (un ! i)\<lparr>quantity_kg := v\<rparr>"
          then have "kin b' (un ! i)" by (simp add: kin_def)
          with 3(1) show ?thesis by (auto intro: nth_mem)
        qed
      qed
    qed
    from Cons.IH [OF rec] step show ?thesis
      by (meson kin_trans)
  qed
qed

lemma regular_item_kin:
  assumes "regular_item byDistance reqId d it un = Inr (a, un')"
  shows "\<forall>b'\<in>set un'. \<exists>b\<in>set un. kin b' b"
proof (cases "regular_source byDistance un (item_foodType it) d")
  case None
  with assms show ?thesis by (auto simp add: regular_item_def intro: kin_refl)
next
  case (Some p)
  obtain w km where p: "p = (w, km)" by (cases p)
  from assms Some p obtain r u where
    "consume stored_freshness (regular_available un (item_foodType it) (nid w) d)
       (required_kg it) [] un = Inr (r, u, un')"
    by (auto simp add: regular_item_def Let_def split: sum.splits)
  then show ?thesis by (rule consume_kin)
qed

lemma ml_item_kin:
  assumes "ml_item distFn e boost ngoNode warehouses reqId d it un = Inr (a, un')"
  shows "\<forall>b'\<in>set un'. \<exists>b\<in>set un. kin b' b"
proof (cases "choose_best distFn e boost ngoNode warehouses it d un")
  case None
  with assms show ?thesis by (auto simp add: ml_item_def intro: kin_refl)
next
  case (Some p)
  obtain wh ranked where p: "p = (wh, ranked)" by (cases p)
  from assms Some p obtain r u where
    "consume (\<lambda>b. calculateFreshnessPct b d 25) (map sc_batch ranked) (required_kg it) [] un
       = Inr (r, u, un')"
    by (auto simp add: ml_item_def split: sum.splits)
  then show ?thesis by (rule consume_kin)
qed


lemma update_descends:
  assumes "i < length w" "descends x (w ! i)"
  shows "\<forall>b'\<in>set (w[i := x]). \<exists>b\<in>set w. descends b' b"
proof
  fix b' assume "b' \<in> set (w[i := x])"
  then have "b' \<in> set w \<or> b' = x"
    by (auto dest: set_update_subset_insert [THEN subsetD])
  then show "\<exists>b\<in>set w. descends b' b"
    using assms by (auto intro: descends_refl nth_mem)
qed

lemma split_for_transfer_descends:
  assumes "split_for_transfer b k t n = (p, c)"
  shows "descends p b \<and> descends c b"
  using assms by (auto simp add: split_for_transfer_def Let_def descends_def)

lemma apply_picked_descends:
  "\<forall>(i, k) \<in> set ps. i < length w \<Longrightarrow>
   \<forall>b'\<in>set (fst (apply_picked t ps (w, n))). \<exists>b\<in>set w. descends b' b"
proof (induction ps arbitrary: w n)
  case Nil
  then show ?case by (auto intro: descends_refl)
next
  case (Cons a ps)
  obtain i k where a: "a = (i, k)" by (cases a)
  have i: "i < length w" using Cons.prems a by simp
  have rest: "\<forall>(j, k') \<in> set ps. j < length w'" if "length w \<le> length w'" for w'
    using Cons.prems that by fastforce
  obtain p c where pc: "split_for_transfer (w ! i) k t (n + 1) = (p, c)"
    by (cases "split_for_transfer (w ! i) k t (n + 1)")
  note d = split_for_transfer_descends [OF pc]
  define w1 n1 where "w1 = (if k \<le> 0 \<or> quantity_kg (w ! i) \<le> 0 then w
                     else if js_sub (quantity_kg (w ! i)) (round_double (1 / 10 ^ 9)) \<le> k
                     then w[i := (w ! i)\<lparr>currentNode := t\<rparr>] else w[i := p] @ [c])"
    and "n1 = (if k \<le> 0 \<or> quantity_kg (w ! i) \<le> 0 then n
                     else if js_sub (quantity_kg (w ! i)) (round_double (1 / 10 ^ 9)) \<le> k then n else n + 1)"
  have eq: "apply_picked t (a # ps) (w, n) = apply_picked t ps (w1, n1)"
    using pc by (simp add: a Let_def w1_def n1_def)
  have len: "length w \<le> length w1" by (simp add: w1_def)
  have step: "\<forall>b'\<in>set w1. \<exists>b\<in>set w. descends b' b"
  proof -
    have 1: "\<forall>b'\<in>set w. \<exists>b\<in>set w. descends b' b" by (auto intro: descends_refl)
    have 2: "\<forall>b'\<in>set (w[i := (w ! i)\<lparr>currentNode := t\<rparr>]). \<exists>b\<in>set w. descends b' b"
      by (rule update_descends [OF i]) (simp add: descends_def)
    have 3: "\<forall>b'\<in>set (w[i := p] @ [c]). \<exists>b\<in>set w. descends b' b"
      using update_descends [OF i d [THEN conjunct1]] d [THEN conjunct2] i
      by (auto intro: nth_mem)
    show ?thesis using 1 2 3 by (simp add: w1_def)
  qed
  from Cons.IH [OF rest [OF len], of n1] step show ?case
    unfolding eq by (meson descends_trans)
qed

lemma apply_suggestion_descends:
  "\<forall>b'\<in>set (ts_working (apply_suggestion d sg st)). \<exists>b\<in>set (ts_working st). descends b' b"
proof -
  have "\<forall>b'\<in>set (fst (apply_picked t (takeFromSource d (ts_working st) src q)
            (ts_working st, ts_splitSeq st))). \<exists>b\<in>set (ts_working st). descends b' b"
    for t src q
    by (rule apply_picked_descends) (auto dest: takeFromSource_indices)
  then show ?thesis
    by (auto simp add: apply_suggestion_def Let_def intro: descends_refl
          split: option.splits prod.splits)
       (metis fst_conv)+
qed

lemma fold_apply_suggestion_descends:
  "\<forall>b'\<in>set (ts_working (fold (apply_suggestion d) sgs st)).
     \<exists>b\<in>set (ts_working st). descends b' b"
proof (induction sgs arbitrary: st)
  case Nil
  then show ?case by (auto intro: descends_refl)
next
  case (Cons sg sgs)
  from Cons.IH [of "apply_suggestion d sg st"] apply_suggestion_descends [of d sg st]
  show ?case by (simp) (meson descends_trans)
qed

lemma applyWarehouseTransfers_descends:
  "\<forall>b'\<in>set (fst (applyWarehouseTransfersToBatches bs ts d)). \<exists>b\<in>set bs. descends b' b"
  using fold_apply_suggestion_descends
          [of d _ "\<lparr> ts_working = bs, ts_splitSeq = 0, ts_applied = [] \<rparr>"]
  by (auto simp add: applyWarehouseTransfersToBatches_def Let_def intro: descends_refl
        split: option.splits)

lemma planner_run_or_skip_descends:
  "\<forall>b'\<in>set (fst (planner_run_or_skip planner opts clock tn whList reason now skippedAt pst)).
     \<exists>b\<in>set (fst pst). descends b' b"
proof -
  have run: "\<forall>b'\<in>set (fst (runTransferPlannerOnce planner opts clock reason now (un, dbg))).
               \<exists>b\<in>set un. descends b' b" for un dbg
    using applyWarehouseTransfers_descends
    by (auto simp add: runTransferPlannerOnce_def Let_def intro: descends_refl
          split: planner_response.splits)
  show ?thesis
    using run
    by (auto simp add: planner_run_or_skip_def shouldRunTransferPlanner_def Let_def
          intro: descends_refl split: prod.splits bool.splits if_splits)
qed

section \<open>No spoiled batch is allocated\<close>

lemma regular_item_fresh:
  assumes h: "regular_item byDistance reqId d it un = Inr (Some a, un')"
  shows "\<forall>u\<in>set (alloc_batches a).
           \<exists>b\<in>set un. batchId u = bid b \<and> currentNode b = alloc_warehouse a
             \<and> 0 < calculateFreshnessPct b (alloc_dispatchTime a) 25"
proof
  fix u assume u: "u \<in> set (alloc_batches a)"
  from regular_item_Some [OF h] obtain w km where
    src: "regular_source byDistance un (item_foodType it) d = Some (w, km)" and
    aeq: "a = \<lparr> requestId = reqId, alloc_foodType = item_foodType it,
           alloc_required_kg = required_kg it,
           allocated_kg = js_sub (required_kg it)
             (leftover (regular_available un (item_foodType it) (nid w) d) (required_kg it)),
           alloc_warehouse = nid w, warehouseName = nname w, distance_km = km,
           alloc_batches = map (used_entry stored_freshness)
             (allot (regular_available un (item_foodType it) (nid w) d) (required_kg it)),
           strategy = ''regular'', alloc_dispatchTime = d \<rparr>"
    and pos: "0 < js_sub (required_kg it)
             (leftover (regular_available un (item_foodType it) (nid w) d) (required_kg it))"
    by (elim exE conjE)
  from u have "u \<in> set (map (used_entry stored_freshness)
             (allot (regular_available un (item_foodType it) (nid w) d) (required_kg it)))"
    by (simp add: aeq)
  from used_entries_of_allot [OF this] obtain b where
    b: "b \<in> set (regular_available un (item_foodType it) (nid w) d)" "batchId u = bid b"
    by blast
  from b(1) have "b \<in> set un" "eligible_regular b (item_foodType it) (nid w) d"
    by (simp_all add: regular_available_set)
  with b(2) show "\<exists>b\<in>set un. batchId u = bid b \<and> currentNode b = alloc_warehouse a
             \<and> 0 < calculateFreshnessPct b (alloc_dispatchTime a) 25"
    by (auto simp add: aeq eligible_regular_def)
qed

lemma ml_item_fresh:
  assumes h: "ml_item distFn e boost ngoNode warehouses reqId d it un = Inr (Some a, un')"
  shows "\<forall>u\<in>set (alloc_batches a).
           \<exists>b\<in>set un. batchId u = bid b \<and> currentNode b = alloc_warehouse a
             \<and> 0 < calculateFreshnessPct b
                     (deliveryTime (alloc_dispatchTime a) (distance_km a)) 25"
proof
  fix u assume u: "u \<in> set (alloc_batches a)"
  from ml_item_Some [OF h] obtain wh where
    wh: "wh \<in> set warehouses" and
    aeq: "a = \<lparr> requestId = reqId, alloc_foodType = item_foodType it,
           alloc_required_kg = required_kg it,
           allocated_kg = js_sub (required_kg it)
             (leftover (map sc_batch (fst (tiered e (candidateBatches un (item_foodType it)
                 (nid wh) d (deliveryTime d (distFn ngoNode wh)))))) (required_kg it)),
           alloc_warehouse = nid wh, warehouseName = nname wh,
           distance_km = distFn ngoNode wh,
           alloc_batches = map (used_entry (\<lambda>b. calculateFreshnessPct b d 25))
             (allot (map sc_batch (fst (tiered e (candidateBatches un (item_foodType it)
                 (nid wh) d (deliveryTime d (distFn ngoNode wh)))))) (required_kg it)),
           strategy = ''ml'', alloc_dispatchTime = d \<rparr>"
    by (elim exE conjE)
  let ?cands = "candidateBatches un (item_foodType it) (nid wh) d
                  (deliveryTime d (distFn ngoNode wh))"
  from u have "u \<in> set (map (used_entry (\<lambda>b. calculateFreshnessPct b d 25))
             (allot (map sc_batch (fst (tiered e ?cands))) (required_kg it)))"
    by (simp add: aeq)
  from used_entries_of_allot [OF this] obtain b where
    b: "b \<in> set (map sc_batch (fst (tiered e ?cands)))" "batchId u = bid b"
    by blast
  from b(1) obtain x where x: "x \<in> set (fst (tiered e ?cands))" "b = sc_batch x" by auto
  from x(1) tiered_set [of e ?cands] have "x \<in> set ?cands" by auto
  from candidateBatches_member [OF this] x(2) b(2)
  show "\<exists>b\<in>set un. batchId u = bid b \<and> currentNode b = alloc_warehouse a
             \<and> 0 < calculateFreshnessPct b
                     (deliveryTime (alloc_dispatchTime a) (distance_km a)) 25"
    by (auto simp add: aeq)
qed

text \<open>
  C1.  A batch referred to by an allocation record is not spoiled at the time at which the
  allocator checks it: the baseline at the dispatch time of the request, the scored
  allocator at the delivery time, the dispatch time plus the estimated travel time from
  the warehouse.  This holds of each line item with respect to the inventory it is
  allocated from, where the batch is stored at the warehouse of the record, and of a
  whole run with respect to the batches the run is given; there the scored allocator may
  refer to a child that a transfer has split from a given batch, whose identifier extends
  that of its parent.  No option changes these checks.
\<close>

theorem no_spoiled_shipment:
  "(regular_item byDistance reqId d it un = Inr (Some a, un') \<longrightarrow>
      (\<forall>u\<in>set (alloc_batches a).
         \<exists>b\<in>set un. batchId u = bid b \<and> currentNode b = alloc_warehouse a
           \<and> 0 < calculateFreshnessPct b (alloc_dispatchTime a) 25))
   \<and> (ml_item distFn e boost ngoNode warehouses reqId d it un = Inr (Some a, un') \<longrightarrow>
      (\<forall>u\<in>set (alloc_batches a).
         \<exists>b\<in>set un. batchId u = bid b \<and> currentNode b = alloc_warehouse a
           \<and> 0 < calculateFreshnessPct b
                   (deliveryTime (alloc_dispatchTime a) (distance_km a)) 25))
   \<and> (allocateRegular_with distFn now ngoOrgs requests batches warehouses ngos opts
        = Inr allocations \<longrightarrow>
      (\<forall>a\<in>set allocations. \<forall>u\<in>set (alloc_batches a).
         \<exists>b0\<in>set batches. batchId u = bid b0
           \<and> 0 < calculateFreshnessPct b0 (alloc_dispatchTime a) 25))
   \<and> (allocateML_with distFn mlResp planner clock e ngoOrgs requests batches warehouses ngos
        opts = Inr (mlAllocations, dbg) \<longrightarrow>
      (\<forall>a\<in>set mlAllocations. \<forall>u\<in>set (alloc_batches a).
         \<exists>b0\<in>set batches. (\<exists>sfx. batchId u = bid b0 @ sfx)
           \<and> 0 < calculateFreshnessPct b0
                   (deliveryTime (alloc_dispatchTime a) (distance_km a)) 25))"
proof -
  have reg: "\<forall>a\<in>set allocations. \<forall>u\<in>set (alloc_batches a).
         \<exists>b0\<in>set batches. batchId u = bid b0
           \<and> 0 < calculateFreshnessPct b0 (alloc_dispatchTime a) 25"
    if run: "allocateRegular_with distFn now ngoOrgs requests batches warehouses ngos opts
               = Inr allocations"
  proof (rule allocateRegular_inv
           [where I = "\<lambda>un. \<forall>b\<in>set un. \<exists>b0\<in>set batches. kin b b0" and Its = UNIV
              and distFn = distFn and warehouses = warehouses, OF _ run])
    show "(\<forall>b\<in>set un'. \<exists>b0\<in>set batches. kin b b0)
          \<and> (\<forall>x. a = Some x \<longrightarrow>
                (\<forall>u\<in>set (alloc_batches x). \<exists>b0\<in>set batches. batchId u = bid b0
                   \<and> 0 < calculateFreshnessPct b0 (alloc_dispatchTime x) 25))"
      if inv: "\<forall>b\<in>set un. \<exists>b0\<in>set batches. kin b b0"
        and it: "regular_item (warehousesByDistance distFn ngoNode warehouses) reqId d it un
                   = Inr (a, un')"
      for ngoNode reqId d it un a un'
    proof -
      have 1: "\<forall>b\<in>set un'. \<exists>b0\<in>set batches. kin b b0"
        using regular_item_kin [OF it] inv by (meson kin_trans)
      have 2: "\<forall>u\<in>set (alloc_batches x). \<exists>b0\<in>set batches. batchId u = bid b0
                   \<and> 0 < calculateFreshnessPct b0 (alloc_dispatchTime x) 25"
        if "a = Some x" for x
      proof
        fix u assume u: "u \<in> set (alloc_batches x)"
        from it that have "regular_item (warehousesByDistance distFn ngoNode warehouses) reqId
                             d it un = Inr (Some x, un')" by simp
        from regular_item_fresh [OF this] u obtain b where
          b: "b \<in> set un" "batchId u = bid b"
             "0 < calculateFreshnessPct b (alloc_dispatchTime x) 25"
          by blast
        from inv b(1) obtain b0 where b0: "b0 \<in> set batches" "kin b b0" by blast
        from b0(2) have "calculateFreshnessPct b (alloc_dispatchTime x) 25
                         = calculateFreshnessPct b0 (alloc_dispatchTime x) 25"
          by (intro freshness_descends kin_descends)
        with b b0 show "\<exists>b0\<in>set batches. batchId u = bid b0
                   \<and> 0 < calculateFreshnessPct b0 (alloc_dispatchTime x) 25"
          by (auto simp add: kin_def)
      qed
      from 1 2 show ?thesis by blast
    qed
  qed (auto intro: kin_refl)
  have ml: "\<forall>a\<in>set mlAllocations. \<forall>u\<in>set (alloc_batches a).
         \<exists>b0\<in>set batches. (\<exists>sfx. batchId u = bid b0 @ sfx)
           \<and> 0 < calculateFreshnessPct b0
                   (deliveryTime (alloc_dispatchTime a) (distance_km a)) 25"
    if run: "allocateML_with distFn mlResp planner clock e ngoOrgs requests batches warehouses
               ngos opts = Inr (mlAllocations, dbg)"
  proof (rule allocateML_inv
           [where I = "\<lambda>un. \<forall>b\<in>set un. \<exists>b0\<in>set batches. descends b b0" and Its = UNIV
              and distFn = distFn and warehouses = warehouses and e = e
              and planner = planner and opts = opts and clock = clock, OF _ _ run])
    show "(\<forall>b\<in>set un'. \<exists>b0\<in>set batches. descends b b0)
          \<and> (\<forall>x. a = Some x \<longrightarrow>
                (\<forall>u\<in>set (alloc_batches x).
                   \<exists>b0\<in>set batches. (\<exists>sfx. batchId u = bid b0 @ sfx)
                     \<and> 0 < calculateFreshnessPct b0
                             (deliveryTime (alloc_dispatchTime x) (distance_km x)) 25))"
      if inv: "\<forall>b\<in>set un. \<exists>b0\<in>set batches. descends b b0"
        and it: "ml_item distFn e boost ngoNode warehouses reqId d it un = Inr (a, un')"
      for boost ngoNode reqId d it un a un'
    proof -
      have 1: "\<forall>b\<in>set un'. \<exists>b0\<in>set batches. descends b b0"
        using ml_item_kin [OF it] inv by (meson kin_descends descends_trans)
      have 2: "\<forall>u\<in>set (alloc_batches x).
                   \<exists>b0\<in>set batches. (\<exists>sfx. batchId u = bid b0 @ sfx)
                     \<and> 0 < calculateFreshnessPct b0
                             (deliveryTime (alloc_dispatchTime x) (distance_km x)) 25"
        if "a = Some x" for x
      proof
        fix u assume u: "u \<in> set (alloc_batches x)"
        from it that have "ml_item distFn e boost ngoNode warehouses reqId d it un
                             = Inr (Some x, un')" by simp
        from ml_item_fresh [OF this] u obtain b where
          b: "b \<in> set un" "batchId u = bid b"
             "0 < calculateFreshnessPct b
                    (deliveryTime (alloc_dispatchTime x) (distance_km x)) 25"
          by blast
        from inv b(1) obtain b0 where b0: "b0 \<in> set batches" "descends b b0" by blast
        from freshness_descends [OF b0(2)] b b0
        show "\<exists>b0\<in>set batches. (\<exists>sfx. batchId u = bid b0 @ sfx)
                     \<and> 0 < calculateFreshnessPct b0
                             (deliveryTime (alloc_dispatchTime x) (distance_km x)) 25"
          by (auto simp add: descends_def)
      qed
      from 1 2 show ?thesis by blast
    qed
    show "\<forall>b\<in>set (fst (planner_run_or_skip planner opts clock (plannerTuning opts e)
                          warehouses reason now skippedAt pst)).
            \<exists>b0\<in>set batches. descends b b0"
      if "\<forall>b\<in>set (fst pst). \<exists>b0\<in>set batches. descends b b0"
      for reason now skippedAt pst
      using that planner_run_or_skip_descends
              [of planner opts clock "plannerTuning opts e" warehouses reason now skippedAt pst]
      by (meson descends_trans)
  qed (auto intro: descends_refl)
  show ?thesis
    by (intro conjI impI regular_item_fresh ml_item_fresh reg ml)
qed

text \<open>
  In the second scenario both allocators take the batch of warehouse A, which is fresh at
  dispatch and on delivery.
\<close>

theorem no_spoiled_shipment_witness:
  "(\<exists>b\<in>set scenario_batches. ''b1'' = bid b \<and> currentNode b = ''A''
       \<and> 0 < calculateFreshnessPct b 0 25)
   \<and> (\<exists>b\<in>set scenario_batches. ''b1'' = bid b \<and> currentNode b = ''A''
       \<and> 0 < calculateFreshnessPct b (deliveryTime 0 10) 25)
   \<and> (\<exists>b0\<in>set scenario_batches. ''b1'' = bid b0 \<and> 0 < calculateFreshnessPct b0 0 25)
   \<and> (\<exists>b0\<in>set scenario_batches. (\<exists>sfx. ''b1'' = bid b0 @ sfx)
       \<and> 0 < calculateFreshnessPct b0 (deliveryTime 0 10) 25)"
proof -
  note t = no_spoiled_shipment
     [where distFn = example_distance and now = 0 and ngoOrgs = example_orgs
        and requests = "[mk_request ''R1'' ''org1'' ''rice'' 100 0]"
        and batches = scenario_batches and warehouses = two_warehouses
        and ngos = "[example_ngo]" and opts = no_options
        and allocations = "[scenario_allocation]" and mlResp = Predict_failed
        and planner = "\<lambda>n bs. Planner_answer None" and clock = 0 and e = no_env
        and mlAllocations = "[ml_allocation 60 ''b1'']"
        and dbg = "initial_debug no_options no_env"
        and byDistance = "warehousesByDistance example_distance example_ngo two_warehouses"
        and reqId = "''R1''" and d = 0 and it = "rice 100" and un = scenario_batches
        and un' = "[mk_batch ''b2'' ''rice'' 100 ''B'' (Some 48) (Some 0)]"
        and boost = 1 and ngoNode = example_ngo]
  note t1 = t [where a = scenario_allocation, THEN conjunct1, THEN mp,
               OF scenario_regular_item]
  note t2 = t [where a = "ml_allocation 60 ''b1''", THEN conjunct2, THEN conjunct1, THEN mp,
               OF scenario_ml_item]
  note t3 = t [where a = scenario_allocation, THEN conjunct2, THEN conjunct2, THEN conjunct1,
               THEN mp, OF scenario_regular_run]
  note t4 = t [where a = scenario_allocation, THEN conjunct2, THEN conjunct2, THEN conjunct2,
               THEN mp, OF scenario_ml_run]
  have 1: "\<exists>b\<in>set scenario_batches. ''b1'' = bid b \<and> currentNode b = ''A''
       \<and> 0 < calculateFreshnessPct b 0 25"
    using t1 by (simp add: scenario_allocation_def)
  have 2: "\<exists>b\<in>set scenario_batches. ''b1'' = bid b \<and> currentNode b = ''A''
       \<and> 0 < calculateFreshnessPct b (deliveryTime 0 10) 25"
    using t2 by (simp add: ml_allocation_def)
  have 3: "\<exists>b0\<in>set scenario_batches. ''b1'' = bid b0 \<and> 0 < calculateFreshnessPct b0 0 25"
    using t3 by (simp add: scenario_allocation_def)
  have 4: "\<exists>b0\<in>set scenario_batches. (\<exists>sfx. ''b1'' = bid b0 @ sfx)
       \<and> 0 < calculateFreshnessPct b0 (deliveryTime 0 10) 25"
    using t4 by (simp add: ml_allocation_def)
  show ?thesis by (intro conjI 1 2 3 4)
qed

text \<open>
  The baseline does not look at the delivery time: a batch with a shelf life of 48 hours
  at a warehouse 2000 km away is fresh at dispatch and allocated, and spoiled 56 hours
  later on delivery.
\<close>

theorem no_spoiled_shipment_counterexample:
  "allocateRegular_with example_distance 0 example_orgs
     [mk_request ''R1'' ''org1'' ''rice'' 100 0] far_batches two_warehouses [example_ngo]
     no_options
   = Inr [\<lparr> requestId = ''R1'', alloc_foodType = ''rice'', alloc_required_kg = 100,
            allocated_kg = 100, alloc_warehouse = ''B'', warehouseName = ''WB'',
            distance_km = 2000,
            alloc_batches = [\<lparr> batchId = ''b5'', quantity = 100, freshness = 100 \<rparr>],
            strategy = ''regular'', alloc_dispatchTime = 0 \<rparr>]
   \<and> deliveryTime 0 2000 = 201600000
   \<and> calculateFreshnessPct (mk_batch ''b5'' ''rice'' 100 ''B'' (Some 48) (Some 0))
       (deliveryTime 0 2000) 25 = 0
   \<and> isSpoiled (mk_batch ''b5'' ''rice'' 100 ''B'' (Some 48) (Some 0))
       (deliveryTime 0 2000) 25"
  by code_simp

section \<open>Failures of the external services\<close>

text \<open>
  A planner whose runs leave the inventory as it is, as a failing one does, has no effect
  on the allocations: two such planners give the same allocations, and differ in the
  trace only.
\<close>

lemma failed_run:
  assumes "planner (attemptedRuns (snd st)) (fst st) = Planner_failed err"
  shows "runTransferPlannerOnce planner opts clock reason now st
         = (fst st,
            (snd st)\<lparr> attemptedRuns := attemptedRuns (snd st) + 1,
                      errorRuns := errorRuns (snd st) + 1,
                      lastError := Some err,
                      timeline := timeline (snd st) @
                        [\<lparr> te_at = now, te_reason = reason, te_skipped = False,
                            te_attempted = True, te_suggestedCount = Some 0,
                            te_appliedCount = Some 0, te_appliedKg = Some 0,
                            te_error = Some err, te_imbalance = None \<rparr>] \<rparr>)"
  using assms by (simp add: runTransferPlannerOnce_def Let_def)

lemma failed_planner_inert:
  assumes "\<forall>n bs. \<exists>err. planner n bs = Planner_failed err"
  shows "fst (planner_run_or_skip planner opts clock tn whList reason now skippedAt pst) = fst pst"
proof -
  obtain err where "planner (attemptedRuns (snd pst)) (fst pst) = Planner_failed err"
    using assms by blast
  then show ?thesis
    by (simp add: planner_run_or_skip_def shouldRunTransferPlanner_def
          runTransferPlannerOnce_def Let_def)
qed

lemma silent_planner_inert:
  "fst (planner_run_or_skip (\<lambda>n bs. Planner_answer None) opts clock tn whList reason now
          skippedAt pst) = fst pst"
  by (simp add: planner_run_or_skip_def shouldRunTransferPlanner_def
        runTransferPlannerOnce_def applyWarehouseTransfersToBatches_def Let_def)

lemma cron_ticks_counters:
  "fst (cron_ticks p opts clock tn whList maxRuns hours d n next pst)
     = fst (cron_ticks q opts clock tn whList maxRuns hours d n next pst')
   \<and> fst (snd (cron_ticks p opts clock tn whList maxRuns hours d n next pst))
     = fst (snd (cron_ticks q opts clock tn whList maxRuns hours d n next pst'))"
proof (induction p opts clock tn whList maxRuns hours d n "next" pst arbitrary: pst'
       rule: cron_ticks.induct)
  case (1 planner opts clock tn whList maxRuns hours dispatchTime cronRuns nextCronRunAt pst)
  show ?case
  proof (cases "real cronRuns < maxRuns
         \<and> real_of_int nextCronRunAt + hours * 3600 * 1000 \<le> real_of_int dispatchTime")
    case True
    show ?thesis
      unfolding cron_ticks_go [OF True] by (rule "1.IH" [OF True])
  next
    case False
    show ?thesis
      unfolding cron_ticks_stop [OF False] by simp
  qed
qed

lemma cron_ticks_inert:
  assumes p: "\<And>reason now skippedAt pst.
       fst (planner_run_or_skip p opts clock tn whList reason now skippedAt pst) = fst pst"
  shows "fst (snd (snd (cron_ticks p opts clock tn whList maxRuns hours d n next pst))) = fst pst"
  by (rule cron_ticks_inv [where I = "\<lambda>un. un = fst pst"]) (simp_all add: p)

lemma cron_init_same:
  assumes p: "\<And>reason now skippedAt pst.
       fst (planner_run_or_skip p opts clock (plannerTuning opts e) whList reason now skippedAt
              pst) = fst pst"
    and q: "\<And>reason now skippedAt pst.
       fst (planner_run_or_skip q opts clock (plannerTuning opts e) whList reason now skippedAt
              pst) = fst pst"
    and s: "same_run s t"
  shows "same_run (cron_init p opts clock e whList hours d s)
           (cron_init q opts clock e whList hours d t)"
  using s by (simp add: same_run_def cron_init_def Let_def p q split: option.splits)

lemma cron_step_same:
  assumes p: "\<And>reason now skippedAt pst.
       fst (planner_run_or_skip p opts clock (plannerTuning opts e) whList reason now skippedAt
              pst) = fst pst"
    and q: "\<And>reason now skippedAt pst.
       fst (planner_run_or_skip q opts clock (plannerTuning opts e) whList reason now skippedAt
              pst) = fst pst"
    and s: "same_run s t"
  shows "same_run (cron_step p opts clock e whList hours d s)
           (cron_step q opts clock e whList hours d t)"
proof -
  define s1 where "s1 = cron_init p opts clock e whList hours d s"
  define t1 where "t1 = cron_init q opts clock e whList hours d t"
  have st1: "same_run s1 t1"
    unfolding s1_def t1_def using p q s by (rule cron_init_same)
  show ?thesis
  proof (cases "ms_nextCronRunAt s1")
    case None
    then have "ms_nextCronRunAt t1 = None" using st1 by (simp add: same_run_def)
    with None st1 show ?thesis
      by (simp add: cron_step_def Let_def s1_def [symmetric] t1_def [symmetric])
  next
    case (Some n)
    then have tn: "ms_nextCronRunAt t1 = Some n" using st1 by (simp add: same_run_def)
    define cs where "cs = cron_ticks p opts clock (plannerTuning opts e) whList (maxCronRuns e)
                            hours d (ms_cronRuns s1) n (ms_unused s1, ms_debug s1)"
    define ct where "ct = cron_ticks q opts clock (plannerTuning opts e) whList (maxCronRuns e)
                            hours d (ms_cronRuns t1) n (ms_unused t1, ms_debug t1)"
    have runs: "ms_cronRuns t1 = ms_cronRuns s1" and un: "ms_unused t1 = ms_unused s1"
      and al: "ms_allocations t1 = ms_allocations s1"
      using st1 by (simp_all add: same_run_def)
    have c: "fst cs = fst ct" "fst (snd cs) = fst (snd ct)"
      unfolding cs_def ct_def runs
      using cron_ticks_counters [of p opts clock "plannerTuning opts e" whList "maxCronRuns e"
              hours d "ms_cronRuns s1" n "(ms_unused s1, ms_debug s1)" q
              "(ms_unused t1, ms_debug t1)"]
      by simp_all
    have u: "fst (snd (snd cs)) = ms_unused s1" "fst (snd (snd ct)) = ms_unused t1"
      unfolding cs_def ct_def
      using cron_ticks_inert [of p opts clock "plannerTuning opts e" whList, OF p]
            cron_ticks_inert [of q opts clock "plannerTuning opts e" whList, OF q]
      by simp_all
    have es: "cron_step p opts clock e whList hours d s
              = s1\<lparr> ms_cronRuns := fst cs, ms_nextCronRunAt := Some (fst (snd cs)),
                    ms_unused := fst (snd (snd cs)), ms_debug := snd (snd (snd cs)) \<rparr>"
      by (simp add: cron_step_def Let_def s1_def [symmetric] Some cs_def [symmetric]
            split: prod.splits)
    have et: "cron_step q opts clock e whList hours d t
              = t1\<lparr> ms_cronRuns := fst ct, ms_nextCronRunAt := Some (fst (snd ct)),
                    ms_unused := fst (snd (snd ct)), ms_debug := snd (snd (snd ct)) \<rparr>"
      by (simp add: cron_step_def Let_def t1_def [symmetric] tn ct_def [symmetric]
            split: prod.splits)
    show ?thesis
      unfolding es et by (simp add: same_run_def c u un al)
  qed
qed

lemma ml_request_same:
  assumes p: "\<And>reason now skippedAt pst.
       fst (planner_run_or_skip p opts clock (plannerTuning opts e) warehouses reason now
              skippedAt pst) = fst pst"
    and q: "\<And>reason now skippedAt pst.
       fst (planner_run_or_skip q opts clock (plannerTuning opts e) warehouses reason now
              skippedAt pst) = fst pst"
    and s: "same_run s t"
  shows "rel_sum (=) same_run
           (ml_request distFn p clock e opts signals ngoOrgs warehouses ngos r s)
           (ml_request distFn q clock e opts signals ngoOrgs warehouses ngos r t)"
proof (cases "find_ngo_node ngoOrgs ngos r")
  case None
  then show ?thesis using s by (simp add: ml_request_def)
next
  case (Some ngoNode)
  define s1 where "s1 = (case cronHours opts e of
                       Some hours \<Rightarrow>
                         if canUseTransferPlanner opts e
                         then cron_step p opts clock e warehouses hours
                                (ml_dispatch_time opts clock r) s
                         else s
                     | None \<Rightarrow> s)"
  define t1 where "t1 = (case cronHours opts e of
                       Some hours \<Rightarrow>
                         if canUseTransferPlanner opts e
                         then cron_step q opts clock e warehouses hours
                                (ml_dispatch_time opts clock r) t
                         else t
                     | None \<Rightarrow> t)"
  have st1: "same_run s1 t1"
    unfolding s1_def t1_def using cron_step_same [OF p q s] s
    by (simp split: option.splits)
  define res where "res = ml_items distFn e (urgencyBoost signals ngoNode) ngoNode warehouses
                    (requestID r) (ml_dispatch_time opts clock r) (items r)
                    (ms_allocations s1, ms_unused s1)"
  define rest where "rest = ml_items distFn e (urgencyBoost signals ngoNode) ngoNode warehouses
                    (requestID r) (ml_dispatch_time opts clock r) (items r)
                    (ms_allocations t1, ms_unused t1)"
  have rt: "rest = res"
    unfolding res_def rest_def using st1 by (simp add: same_run_def)
  have es: "ml_request distFn p clock e opts signals ngoOrgs warehouses ngos r s
            = (case res of Inl err \<Rightarrow> Inl err
               | Inr (allocations, unused') \<Rightarrow>
                   Inr (s1\<lparr> ms_allocations := allocations, ms_unused := unused' \<rparr>))"
    unfolding s1_def res_def by (simp add: ml_request_def Some Let_def)
  have et: "ml_request distFn q clock e opts signals ngoOrgs warehouses ngos r t
            = (case rest of Inl err \<Rightarrow> Inl err
               | Inr (allocations, unused') \<Rightarrow>
                   Inr (t1\<lparr> ms_allocations := allocations, ms_unused := unused' \<rparr>))"
    unfolding t1_def rest_def by (simp add: ml_request_def Some Let_def)
  show ?thesis
    unfolding es et rt using st1 by (auto simp add: same_run_def split: sum.splits)
qed

lemma ml_requests_same:
  assumes p: "\<And>reason now skippedAt pst.
       fst (planner_run_or_skip p opts clock (plannerTuning opts e) warehouses reason now
              skippedAt pst) = fst pst"
    and q: "\<And>reason now skippedAt pst.
       fst (planner_run_or_skip q opts clock (plannerTuning opts e) warehouses reason now
              skippedAt pst) = fst pst"
  shows "same_run s t \<Longrightarrow>
         rel_sum (=) same_run
           (ml_requests distFn p clock e opts signals ngoOrgs warehouses ngos rs s)
           (ml_requests distFn q clock e opts signals ngoOrgs warehouses ngos rs t)"
proof (induction rs arbitrary: s t)
  case Nil
  then show ?case by simp
next
  case (Cons r rs)
  define A where "A = ml_request distFn p clock e opts signals ngoOrgs warehouses ngos r s"
  define B where "B = ml_request distFn q clock e opts signals ngoOrgs warehouses ngos r t"
  have R: "rel_sum (=) same_run A B"
    unfolding A_def B_def by (rule ml_request_same [OF p q Cons.prems])
  show ?case
  proof (cases A)
    case (Inl a)
    with R have "B = Inl a" by (cases B) simp_all
    with Inl show ?thesis by (simp add: A_def [symmetric] B_def [symmetric])
  next
    case (Inr s')
    with R obtain t' where t': "B = Inr t'" "same_run s' t'" by (cases B) simp_all
    from Cons.IH [OF t'(2)] Inr t'(1) show ?thesis
      by (simp add: A_def [symmetric] B_def [symmetric])
  qed
qed

lemma allocateML_same:
  assumes p: "\<And>reason now skippedAt pst.
       fst (planner_run_or_skip p opts clock (plannerTuning opts e) warehouses reason now
              skippedAt pst) = fst pst"
    and q: "\<And>reason now skippedAt pst.
       fst (planner_run_or_skip q opts clock (plannerTuning opts e) warehouses reason now
              skippedAt pst) = fst pst"
    and rp: "allocateML_with distFn mlResp p clock e ngoOrgs requests batches warehouses ngos opts
             = Inr (allocations, dbg)"
  shows "\<exists>dbg'. allocateML_with distFn mlResp q clock e ngoOrgs requests batches warehouses ngos
                  opts = Inr (allocations, dbg')"
proof -
  define rs where "rs =
     (if useTransferPlannerCron opts e
      then js_sort (\<lambda>a b. real_of_int (request_sort_key a - request_sort_key b)) requests
      else requests)"
  define s0 where "s0 =
     (if canUseTransferPlanner opts e \<and> \<not> useTransferPlannerCron opts e
      then planner_run_or_skip p opts clock (plannerTuning opts e) warehouses
             One_shot None (referenceDate opts) (batches, initial_debug opts e)
      else (batches, initial_debug opts e))"
  define t0 where "t0 =
     (if canUseTransferPlanner opts e \<and> \<not> useTransferPlannerCron opts e
      then planner_run_or_skip q opts clock (plannerTuning opts e) warehouses
             One_shot None (referenceDate opts) (batches, initial_debug opts e)
      else (batches, initial_debug opts e))"
  have f: "fst s0 = batches" "fst t0 = batches"
    by (simp_all add: s0_def t0_def p q)
  have same: "same_run \<lparr> ms_allocations = [], ms_unused = fst s0, ms_debug = snd s0,
                         ms_cronRuns = 0, ms_nextCronRunAt = None \<rparr>
                       \<lparr> ms_allocations = [], ms_unused = fst t0, ms_debug = snd t0,
                         ms_cronRuns = 0, ms_nextCronRunAt = None \<rparr>"
    by (simp add: same_run_def f)
  have ep: "allocateML_with distFn mlResp p clock e ngoOrgs requests batches warehouses ngos opts
            = (case ml_requests distFn p clock e opts (regionalSignals mlResp) ngoOrgs warehouses
                      ngos rs \<lparr> ms_allocations = [], ms_unused = fst s0, ms_debug = snd s0,
                         ms_cronRuns = 0, ms_nextCronRunAt = None \<rparr> of
                 Inl err \<Rightarrow> Inl err
               | Inr st \<Rightarrow> Inr (ms_allocations st, ms_debug st))"
    by (simp add: allocateML_with_def Let_def rs_def s0_def)
  have eq: "allocateML_with distFn mlResp q clock e ngoOrgs requests batches warehouses ngos opts
            = (case ml_requests distFn q clock e opts (regionalSignals mlResp) ngoOrgs warehouses
                      ngos rs \<lparr> ms_allocations = [], ms_unused = fst t0, ms_debug = snd t0,
                         ms_cronRuns = 0, ms_nextCronRunAt = None \<rparr> of
                 Inl err \<Rightarrow> Inl err
               | Inr st \<Rightarrow> Inr (ms_allocations st, ms_debug st))"
    by (simp add: allocateML_with_def Let_def rs_def t0_def)
  define A where "A = ml_requests distFn p clock e opts (regionalSignals mlResp) ngoOrgs
                        warehouses ngos rs
                        \<lparr> ms_allocations = [], ms_unused = fst s0, ms_debug = snd s0,
                          ms_cronRuns = 0, ms_nextCronRunAt = None \<rparr>"
  define B where "B = ml_requests distFn q clock e opts (regionalSignals mlResp) ngoOrgs
                        warehouses ngos rs
                        \<lparr> ms_allocations = [], ms_unused = fst t0, ms_debug = snd t0,
                          ms_cronRuns = 0, ms_nextCronRunAt = None \<rparr>"
  have R: "rel_sum (=) same_run A B"
    unfolding A_def B_def by (rule ml_requests_same [OF p q same])
  from rp obtain s' where s': "A = Inr s'" "allocations = ms_allocations s'"
    unfolding ep A_def [symmetric] by (cases A) auto
  with R obtain t' where t': "B = Inr t'" "same_run s' t'" by (cases B) simp_all
  show ?thesis
    unfolding eq B_def [symmetric] using s'(2) t' by (simp add: same_run_def)
qed

text \<open>
  C9.  \<open>allocateML\<close> returns its allocations and the trace whatever the demand-signal
  service and the planner answer, also when they fail.  A failed demand-signal call
  leaves no signals, so that the urgency boost is 1 for every NGO, and the result is that
  of a service that reports no signals.  A failed planner call leaves the inventory as it
  is and is counted and recorded in the trace with its error; in a run without cron
  interval the trace that \<open>allocateML\<close> returns holds that entry.  With a planner that
  fails at every call the allocations are those of a planner that never suggests a
  transfer.
\<close>

theorem external_failure_tolerance:
  "(\<exists>allocations dbg.
      allocateML_with distFn mlResp planner clock e ngoOrgs requests batches warehouses ngos opts
        = Inr (allocations, dbg))
   \<and> regionalSignals Predict_failed = []
   \<and> urgencyBoost (regionalSignals Predict_failed) ngoNode = 1
   \<and> allocateML_with distFn Predict_failed planner clock e ngoOrgs requests batches warehouses
        ngos opts
      = allocateML_with distFn (Predict_answer (Some [])) planner clock e ngoOrgs requests batches
          warehouses ngos opts
   \<and> (planner (attemptedRuns (snd st)) (fst st) = Planner_failed err \<longrightarrow>
        runTransferPlannerOnce planner opts clock reason now st
        = (fst st,
           (snd st)\<lparr> attemptedRuns := attemptedRuns (snd st) + 1,
                     errorRuns := errorRuns (snd st) + 1,
                     lastError := Some err,
                     timeline := timeline (snd st) @
                       [\<lparr> te_at = now, te_reason = reason, te_skipped = False,
                           te_attempted = True, te_suggestedCount = Some 0,
                           te_appliedCount = Some 0, te_appliedKg = Some 0,
                           te_error = Some err, te_imbalance = None \<rparr>] \<rparr>))
   \<and> (cronHours opts e = None \<and> canUseTransferPlanner opts e
        \<and> fst (shouldRunTransferPlanner (plannerTuning opts e) warehouses
                 (batches, initial_debug opts e))
        \<and> planner 0 batches = Planner_failed err
        \<and> allocateML_with distFn mlResp planner clock e ngoOrgs requests batches warehouses ngos
             opts = Inr (allocations, dbg) \<longrightarrow>
        attemptedRuns dbg = 1 \<and> errorRuns dbg = 1 \<and> lastError dbg = Some err
        \<and> runs dbg = 0 \<and> appliedTransfers dbg = 0
        \<and> timeline dbg =
            [\<lparr> te_at = None, te_reason = One_shot, te_skipped = False,
                te_attempted = True, te_suggestedCount = Some 0,
                te_appliedCount = Some 0, te_appliedKg = Some 0,
                te_error = Some err, te_imbalance = None \<rparr>])
   \<and> ((\<forall>n bs. \<exists>err. planner n bs = Planner_failed err) \<longrightarrow>
        (\<exists>allocations dbg dbg'.
           allocateML_with distFn mlResp planner clock e ngoOrgs requests batches warehouses ngos
             opts = Inr (allocations, dbg)
           \<and> allocateML_with distFn mlResp (\<lambda>n bs. Planner_answer None) clock e ngoOrgs requests
               batches warehouses ngos opts = Inr (allocations, dbg')))"
proof -
  have ret: "\<exists>allocations dbg.
      allocateML_with distFn mlResp planner clock e ngoOrgs requests batches warehouses ngos opts
        = Inr (allocations, dbg)"
    by (rule allocateML_no_error)
  have sig: "regionalSignals Predict_failed = []"
    by (simp add: regionalSignals_def)
  have boost: "urgencyBoost (regionalSignals Predict_failed) ngoNode = 1"
    by (simp add: regionalSignals_def urgencyBoost_def)
  have same: "allocateML_with distFn Predict_failed planner clock e ngoOrgs requests batches
                warehouses ngos opts
      = allocateML_with distFn (Predict_answer (Some [])) planner clock e ngoOrgs requests batches
          warehouses ngos opts"
    by (simp add: allocateML_with_def regionalSignals_def)
  have once: "planner (attemptedRuns (snd st)) (fst st) = Planner_failed err \<longrightarrow>
        runTransferPlannerOnce planner opts clock reason now st
        = (fst st,
           (snd st)\<lparr> attemptedRuns := attemptedRuns (snd st) + 1,
                     errorRuns := errorRuns (snd st) + 1,
                     lastError := Some err,
                     timeline := timeline (snd st) @
                       [\<lparr> te_at = now, te_reason = reason, te_skipped = False,
                           te_attempted = True, te_suggestedCount = Some 0,
                           te_appliedCount = Some 0, te_appliedKg = Some 0,
                           te_error = Some err, te_imbalance = None \<rparr>] \<rparr>)"
    by (rule impI) (rule failed_run)
  have trace: "cronHours opts e = None \<and> canUseTransferPlanner opts e
        \<and> fst (shouldRunTransferPlanner (plannerTuning opts e) warehouses
                 (batches, initial_debug opts e))
        \<and> planner 0 batches = Planner_failed err
        \<and> allocateML_with distFn mlResp planner clock e ngoOrgs requests batches warehouses ngos
             opts = Inr (allocations, dbg) \<longrightarrow>
        attemptedRuns dbg = 1 \<and> errorRuns dbg = 1 \<and> lastError dbg = Some err
        \<and> runs dbg = 0 \<and> appliedTransfers dbg = 0
        \<and> timeline dbg =
            [\<lparr> te_at = None, te_reason = One_shot, te_skipped = False,
                te_attempted = True, te_suggestedCount = Some 0,
                te_appliedCount = Some 0, te_appliedKg = Some 0,
                te_error = Some err, te_imbalance = None \<rparr>]"
  proof
    assume h: "cronHours opts e = None \<and> canUseTransferPlanner opts e
        \<and> fst (shouldRunTransferPlanner (plannerTuning opts e) warehouses
                 (batches, initial_debug opts e))
        \<and> planner 0 batches = Planner_failed err
        \<and> allocateML_with distFn mlResp planner clock e ngoOrgs requests batches warehouses ngos
             opts = Inr (allocations, dbg)"
    define d0 where "d0 = (initial_debug opts e)
        \<lparr>pd_imbalance := Some (imbalance_stats (plannerTuning opts e) warehouses batches)\<rparr>"
    have d: "dbg = snd (planner_run_or_skip planner opts clock (plannerTuning opts e) warehouses
                          One_shot None (referenceDate opts) (batches, initial_debug opts e))"
      using allocateML_one_shot_debug [of opts e distFn mlResp planner clock ngoOrgs requests
              batches warehouses ngos allocations dbg] h
      by simp
    have sh: "shouldRunTransferPlanner (plannerTuning opts e) warehouses
                (batches, initial_debug opts e) = (True, d0)"
      using h shouldRun_debug [of "plannerTuning opts e" warehouses
                                  "(batches, initial_debug opts e)"]
      by (simp add: prod_eq_iff d0_def)
    have z: "attemptedRuns d0 = 0" "errorRuns d0 = 0" "runs d0 = 0" "appliedTransfers d0 = 0"
      "timeline d0 = []"
      by (simp_all add: d0_def initial_debug_def)
    have pl: "planner (attemptedRuns (snd (batches, d0))) (fst (batches, d0)) = Planner_failed err"
      using h by (simp add: z)
    have "dbg = snd (runTransferPlannerOnce planner opts clock One_shot None (batches, d0))"
      by (simp add: d planner_run_or_skip_def sh)
    then show "attemptedRuns dbg = 1 \<and> errorRuns dbg = 1 \<and> lastError dbg = Some err
        \<and> runs dbg = 0 \<and> appliedTransfers dbg = 0
        \<and> timeline dbg =
            [\<lparr> te_at = None, te_reason = One_shot, te_skipped = False,
                te_attempted = True, te_suggestedCount = Some 0,
                te_appliedCount = Some 0, te_appliedKg = Some 0,
                te_error = Some err, te_imbalance = None \<rparr>]"
      by (simp add: failed_run [where planner = planner and st = "(batches, d0)", OF pl] z)
  qed
  have absent: "(\<forall>n bs. \<exists>err. planner n bs = Planner_failed err) \<longrightarrow>
        (\<exists>allocations dbg dbg'.
           allocateML_with distFn mlResp planner clock e ngoOrgs requests batches warehouses ngos
             opts = Inr (allocations, dbg)
           \<and> allocateML_with distFn mlResp (\<lambda>n bs. Planner_answer None) clock e ngoOrgs requests
               batches warehouses ngos opts = Inr (allocations, dbg'))"
  proof
    assume f: "\<forall>n bs. \<exists>err. planner n bs = Planner_failed err"
    from ret obtain allocations dbg where
      r: "allocateML_with distFn mlResp planner clock e ngoOrgs requests batches warehouses ngos
            opts = Inr (allocations, dbg)"
      by blast
    have "\<exists>dbg'. allocateML_with distFn mlResp (\<lambda>n bs. Planner_answer None) clock e ngoOrgs
                   requests batches warehouses ngos opts = Inr (allocations, dbg')"
      by (rule allocateML_same [OF _ _ r])
         (rule failed_planner_inert [OF f], rule silent_planner_inert)
    with r show "\<exists>allocations dbg dbg'.
           allocateML_with distFn mlResp planner clock e ngoOrgs requests batches warehouses ngos
             opts = Inr (allocations, dbg)
           \<and> allocateML_with distFn mlResp (\<lambda>n bs. Planner_answer None) clock e ngoOrgs requests
               batches warehouses ngos opts = Inr (allocations, dbg')"
      by blast
  qed
  show ?thesis
    by (intro conjI ret sig boost same once trace absent)
qed

text \<open>
  With the planner enabled and warehouse A at 90 and B at 20 per cent, a planner that
  times out leaves the inventory as it is; the run returns, its trace holds the error,
  and its allocations are those of a planner without suggestions.
\<close>

theorem external_failure_tolerance_witness:
  "runTransferPlannerOnce failing_planner planner_options 0 One_shot None
     (imbalanced_batches, initial_debug planner_options no_env)
   = (imbalanced_batches,
      (initial_debug planner_options no_env)
        \<lparr> attemptedRuns := 1, errorRuns := 1, lastError := Some timeout_error,
          timeline :=
            [\<lparr> te_at = None, te_reason = One_shot, te_skipped = False,
                te_attempted = True, te_suggestedCount = Some 0,
                te_appliedCount = Some 0, te_appliedKg = Some 0,
                te_error = Some timeout_error, te_imbalance = None \<rparr>] \<rparr>)
   \<and> (\<exists>allocations dbg dbg'.
        allocateML_with example_distance Predict_failed failing_planner 0 no_env example_orgs
          [mk_request ''R1'' ''org1'' ''rice'' 100 0] imbalanced_batches example_warehouses
          [example_ngo] planner_options = Inr (allocations, dbg)
        \<and> errorRuns dbg = 1 \<and> lastError dbg = Some timeout_error \<and> runs dbg = 0
        \<and> allocateML_with example_distance Predict_failed (\<lambda>n bs. Planner_answer None) 0 no_env
            example_orgs [mk_request ''R1'' ''org1'' ''rice'' 100 0] imbalanced_batches
            example_warehouses [example_ngo] planner_options = Inr (allocations, dbg'))"
proof -
  note t = external_failure_tolerance
     [where distFn = example_distance and mlResp = Predict_failed and planner = failing_planner
        and clock = 0 and e = no_env and ngoOrgs = example_orgs
        and requests = "[mk_request ''R1'' ''org1'' ''rice'' 100 0]"
        and batches = imbalanced_batches and warehouses = example_warehouses
        and ngos = "[example_ngo]" and opts = planner_options and ngoNode = example_ngo
        and st = "(imbalanced_batches, initial_debug planner_options no_env)"
        and err = timeout_error and reason = One_shot and now = None]
  have z: "attemptedRuns (initial_debug planner_options no_env) = 0"
    "errorRuns (initial_debug planner_options no_env) = 0"
    "timeline (initial_debug planner_options no_env) = []"
    by (simp_all add: initial_debug_def)
  have f: "failing_planner n bs = Planner_failed timeout_error" for n bs
    by (simp add: failing_planner_def)
  have 1: "runTransferPlannerOnce failing_planner planner_options 0 One_shot None
     (imbalanced_batches, initial_debug planner_options no_env)
   = (imbalanced_batches,
      (initial_debug planner_options no_env)
        \<lparr> attemptedRuns := 1, errorRuns := 1, lastError := Some timeout_error,
          timeline :=
            [\<lparr> te_at = None, te_reason = One_shot, te_skipped = False,
                te_attempted = True, te_suggestedCount = Some 0,
                te_appliedCount = Some 0, te_appliedKg = Some 0,
                te_error = Some timeout_error, te_imbalance = None \<rparr>] \<rparr>)"
    using t [THEN conjunct2, THEN conjunct2, THEN conjunct2, THEN conjunct2, THEN conjunct1,
             THEN mp, OF f]
    by (simp add: z)
  have "\<forall>n bs. \<exists>err. failing_planner n bs = Planner_failed err"
    using f by blast
  from t [THEN conjunct2, THEN conjunct2, THEN conjunct2, THEN conjunct2, THEN conjunct2,
          THEN conjunct2, THEN mp, OF this]
  obtain allocations dbg dbg' where
    r: "allocateML_with example_distance Predict_failed failing_planner 0 no_env example_orgs
          [mk_request ''R1'' ''org1'' ''rice'' 100 0] imbalanced_batches example_warehouses
          [example_ngo] planner_options = Inr (allocations, dbg)"
    and r': "allocateML_with example_distance Predict_failed (\<lambda>n bs. Planner_answer None) 0
          no_env example_orgs [mk_request ''R1'' ''org1'' ''rice'' 100 0] imbalanced_batches
          example_warehouses [example_ngo] planner_options = Inr (allocations, dbg')"
    by blast
  have c: "cronHours planner_options no_env = None"
    "canUseTransferPlanner planner_options no_env"
    by (simp_all add: cronHours_def canUseTransferPlanner_def planner_options_def
          no_options_def no_env_def or_else_def)
  have s: "fst (shouldRunTransferPlanner (plannerTuning planner_options no_env)
                  example_warehouses (imbalanced_batches, initial_debug planner_options no_env))"
    by code_simp
  from t [where allocations = allocations and dbg = dbg, THEN conjunct2, THEN conjunct2,
          THEN conjunct2, THEN conjunct2, THEN conjunct2, THEN conjunct1, THEN mp,
          OF conjI [OF c(1) conjI [OF c(2) conjI [OF s conjI [OF f r]]]]]
  have 2: "errorRuns dbg = 1 \<and> lastError dbg = Some timeout_error \<and> runs dbg = 0"
    by simp
  from 1 2 r r' show ?thesis by blast
qed

end
